theory Spec2Isabelle
  imports Main "HOL-Library.Word" "HOL-Library.AList" "HOL-Library.FSet"
begin

section \<open>The CPU server of the QoS-aware sysadvisor plugin (cpu\_server.go)\<close>

text \<open>
  Go maps are association lists here: \<open>map_of\<close> is the lookup, \<open>AList.update\<close> the
  assignment \<^verbatim>\<open>m[k] = v\<close>, and the order of the list stands for the order in which
  \<^verbatim>\<open>range\<close> happens to visit the map. Theorems below hold for every such order.
  A list that represents a Go map has pairwise distinct keys.
\<close>

subsection \<open>Constants declared outside the server file\<close>

text \<open>
  Modelled from the spec: the QoS level names of the API package and the pool names and the
  sentinel container name of package commonstate are declared in files that are not part of
  the sources at hand. The spec speaks of the workload classes dedicated, shared and
  reclaimed, of the reclaimed pool, and of a sentinel "faked container" sub-key that marks a
  pool-level row. The values below are the ones the upstream packages use.
\<close>

definition PodAnnotationQoSLevelDedicatedCores :: string where
  "PodAnnotationQoSLevelDedicatedCores = ''dedicated_cores''"

definition PodAnnotationQoSLevelSharedCores :: string where
  "PodAnnotationQoSLevelSharedCores = ''shared_cores''"

definition PodAnnotationQoSLevelReclaimedCores :: string where
  "PodAnnotationQoSLevelReclaimedCores = ''reclaimed_cores''"

definition PoolNameReclaim :: string where
  "PoolNameReclaim = ''reclaim''"

definition FakedContainerName :: string where
  "FakedContainerName = ''''"

subsection \<open>Data model\<close>

type_synonym CPUSet = "int fset"

text \<open>\<^verbatim>\<open>map[int]machine.CPUSet\<close>: NUMA index to CPU set.\<close>

type_synonym CPUAssignment = "(int \<times> CPUSet) list"

datatype error =
    ContainerNotExist string string
  | GetQoSLevelFailed string string
  | AnotherLoopRunning
  | CreateClientFailed

text \<open>
  \<^verbatim>\<open>cpuadvisor.AllocationInfo\<close>, one row of a checkpoint: the fields that
  \<^verbatim>\<open>updatePoolInfo\<close> and \<^verbatim>\<open>updateContainerInfo\<close> read.
\<close>

record AllocationInfo =
  ai_RampUp :: bool
  ai_OwnerPoolName :: string
  ai_TopologyAwareAssignments :: CPUAssignment
  ai_OriginalTopologyAwareAssignments :: CPUAssignment

text \<open>
  \<^verbatim>\<open>GetCheckpointResponse.Entries\<close>: pool name or pod UID to (container name to
  allocation info).
\<close>

type_synonym GetCheckpointResponse = "(string \<times> (string \<times> AllocationInfo) list) list"

record PoolInfo =
  PoolName :: string
  pi_TopologyAwareAssignments :: CPUAssignment
  pi_OriginalTopologyAwareAssignments :: CPUAssignment

text \<open>
  \<^verbatim>\<open>types.ContainerInfo\<close>: the fields the server reads and writes. \<open>RegionNames\<close> is
  the sorted \<^verbatim>\<open>List()\<close> of the string set of the source. Two fields stand for code
  that is not in the sources at hand:

  Modelled from the spec: \<open>NumaBinding\<close> says that the container is NUMA-bound (the spec's
  "NUMA-bound dedicated containers"); \<open>Timestamp\<close> is the time the cache recorded the
  container, which garbage collection compares with the safe time.
\<close>

record ContainerInfo =
  PodUID :: string
  PodNamespace :: string
  PodName :: string
  ContainerName :: string
  QoSLevel :: string
  NumaBinding :: bool
  RampUp :: bool
  OwnerPoolName :: string
  OriginOwnerPoolName :: string
  TopologyAwareAssignments :: CPUAssignment
  OriginalTopologyAwareAssignments :: CPUAssignment
  Isolated :: bool
  RegionNames :: "string list"
  Timestamp :: int

subsection \<open>The metadata cache\<close>

text \<open>
  Modelled from the spec: the cache (\<^verbatim>\<open>metacache.MetaCache\<close>) is an external collaborator
  whose code is not in the sources at hand. The spec requires "a cache with
  get/set/range/range-and-delete/GC operations keyed by pod UID + container name
  (containers) and by pool name (pools)". A get returns a copy of the record, so changing
  the copy changes nothing in the cache until it is set back.
\<close>

record MetaCache =
  containerInfos :: "((string \<times> string) \<times> ContainerInfo) list"
  poolInfos :: "(string \<times> PoolInfo) list"

definition GetContainerInfo :: "MetaCache \<Rightarrow> string \<Rightarrow> string \<Rightarrow> ContainerInfo option" where
  "GetContainerInfo mc podUID containerName = map_of (containerInfos mc) (podUID, containerName)"

definition SetContainerInfo :: "MetaCache \<Rightarrow> string \<Rightarrow> string \<Rightarrow> ContainerInfo \<Rightarrow> MetaCache" where
  "SetContainerInfo mc podUID containerName ci =
     mc\<lparr>containerInfos := AList.update (podUID, containerName) ci (containerInfos mc)\<rparr>"

definition GetPoolInfo :: "MetaCache \<Rightarrow> string \<Rightarrow> PoolInfo option" where
  "GetPoolInfo mc poolName = map_of (poolInfos mc) poolName"

definition SetPoolInfo :: "MetaCache \<Rightarrow> string \<Rightarrow> PoolInfo \<Rightarrow> MetaCache" where
  "SetPoolInfo mc poolName pi = mc\<lparr>poolInfos := AList.update poolName pi (poolInfos mc)\<rparr>"

text \<open>
  Modelled from the spec: \<^verbatim>\<open>RangeContainer\<close> visits every cached container; the callback
  here threads an accumulator, as the closures of the source do with the variables they
  capture.
\<close>

definition RangeContainer ::
  "(string \<Rightarrow> string \<Rightarrow> ContainerInfo \<Rightarrow> 'a \<Rightarrow> 'a) \<Rightarrow> MetaCache \<Rightarrow> 'a \<Rightarrow> 'a" where
  "RangeContainer f mc acc = fold (\<lambda>((podUID, containerName), ci). f podUID containerName ci) (containerInfos mc) acc"

text \<open>
  Modelled from the spec: \<^verbatim>\<open>RangeAndDeleteContainer\<close> deletes the containers the
  predicate selects, "using safeTime as a monotonic fence": "a container added concurrently
  with safe-time < its creation must survive".
\<close>

definition RangeAndDeleteContainer :: "(ContainerInfo \<Rightarrow> bool) \<Rightarrow> int \<Rightarrow> MetaCache \<Rightarrow> MetaCache" where
  "RangeAndDeleteContainer f safeTime mc =
     mc\<lparr>containerInfos := filter (\<lambda>(k, ci). \<not> (\<not> safeTime < Timestamp ci \<and> f ci)) (containerInfos mc)\<rparr>"

text \<open>
  Modelled from the spec: \<^verbatim>\<open>GCPoolEntries\<close>: "pools not in the living set are deleted".
\<close>

definition GCPoolEntries :: "string set \<Rightarrow> MetaCache \<Rightarrow> MetaCache" where
  "GCPoolEntries livingPoolNameSet mc =
     mc\<lparr>poolInfos := filter (\<lambda>(poolName, pi). poolName \<in> livingPoolNameSet) (poolInfos mc)\<rparr>"

text \<open>
  Modelled from the spec: \<^verbatim>\<open>machine.TransformCPUAssignmentFormat\<close> turns the wire form
  of an assignment into per-NUMA CPU sets. The checkpoint is taken here with its
  assignments already in that form, so the transformation has nothing left to do.
\<close>

definition TransformCPUAssignmentFormat :: "CPUAssignment \<Rightarrow> CPUAssignment" where
  "TransformCPUAssignmentFormat a = a"

subsection \<open>Checkpoint reconciliation\<close>

definition updatePoolInfo :: "MetaCache \<Rightarrow> string \<Rightarrow> AllocationInfo \<Rightarrow> MetaCache \<times> error option" where
  "updatePoolInfo mc poolName info =
     (let pi = (case GetPoolInfo mc poolName of
                  Some p \<Rightarrow> p
                | None \<Rightarrow> \<lparr>PoolName = ai_OwnerPoolName info,
                           pi_TopologyAwareAssignments = [],
                           pi_OriginalTopologyAwareAssignments = []\<rparr>);
          pi = pi\<lparr>pi_TopologyAwareAssignments :=
                    TransformCPUAssignmentFormat (ai_TopologyAwareAssignments info)\<rparr>;
          pi = pi\<lparr>pi_OriginalTopologyAwareAssignments :=
                    TransformCPUAssignmentFormat (ai_OriginalTopologyAwareAssignments info)\<rparr>
      in (SetPoolInfo mc poolName pi, None))"

text \<open>
  \<open>qosConf\<close> stands for \<^verbatim>\<open>cs.qosConf.GetQoSLevelForPod\<close>, an external collaborator:
  \<open>None\<close> is its error. The result pairs the cache after the call with the error returned.
\<close>

definition updateContainerInfo ::
  "('pod \<Rightarrow> string option) \<Rightarrow> MetaCache \<Rightarrow> string \<Rightarrow> string \<Rightarrow> 'pod \<Rightarrow> AllocationInfo
     \<Rightarrow> MetaCache \<times> error option" where
  "updateContainerInfo qosConf mc podUID containerName pod info =
     (case GetContainerInfo mc podUID containerName of
        None \<Rightarrow> (mc, Some (ContainerNotExist podUID containerName))
      | Some ci \<Rightarrow>
          (let ci = ci\<lparr>RampUp := ai_RampUp info\<rparr>;
               ci = ci\<lparr>TopologyAwareAssignments :=
                         TransformCPUAssignmentFormat (ai_TopologyAwareAssignments info)\<rparr>;
               ci = ci\<lparr>OriginalTopologyAwareAssignments :=
                         TransformCPUAssignmentFormat (ai_OriginalTopologyAwareAssignments info)\<rparr>;
               ci = ci\<lparr>OwnerPoolName := ai_OwnerPoolName info\<rparr>
           in case qosConf pod of
                None \<Rightarrow> (mc, Some (GetQoSLevelFailed podUID containerName))
              | Some qosLevel \<Rightarrow>
                  (let ci = (if QoSLevel ci \<noteq> qosLevel then ci\<lparr>QoSLevel := qosLevel\<rparr> else ci);
                       ci = (if OriginOwnerPoolName ci = ''''
                             then ci\<lparr>OriginOwnerPoolName := OwnerPoolName ci\<rparr> else ci);
                       ci = (if QoSLevel ci \<noteq> PodAnnotationQoSLevelDedicatedCores
                             then (if length (OwnerPoolName ci) > 0
                                   then (case GetPoolInfo mc (OwnerPoolName ci) of
                                           Some poolInfo \<Rightarrow>
                                             ci\<lparr>TopologyAwareAssignments :=
                                                   pi_TopologyAwareAssignments poolInfo\<rparr>
                                         | None \<Rightarrow> ci)
                                   else ci)
                             else ci)
                   in (SetContainerInfo mc podUID containerName ci, None))))"

text \<open>
  The predicate that \<^verbatim>\<open>syncCheckpoint\<close> hands to \<^verbatim>\<open>RangeAndDeleteContainer\<close>.
\<close>

definition notInCheckpoint :: "GetCheckpointResponse \<Rightarrow> ContainerInfo \<Rightarrow> bool" where
  "notInCheckpoint resp containerInfo =
     (case map_of resp (PodUID containerInfo) of
        None \<Rightarrow> True
      | Some info \<Rightarrow> (case map_of info (ContainerName containerInfo) of
                        None \<Rightarrow> True
                      | Some _ \<Rightarrow> False))"

text \<open>First loop of \<^verbatim>\<open>syncCheckpoint\<close>: pool entries.\<close>

definition syncPools ::
  "GetCheckpointResponse \<Rightarrow> string set \<times> MetaCache \<Rightarrow> string set \<times> MetaCache" where
  "syncPools resp =
     fold (\<lambda>(entryName, entry) (livingPoolNameSet, mc).
             case map_of entry FakedContainerName of
               Some poolInfo \<Rightarrow>
                 (insert entryName livingPoolNameSet, fst (updatePoolInfo mc entryName poolInfo))
             | None \<Rightarrow> (livingPoolNameSet, mc)) resp"

text \<open>
  Second loop: container entries. \<open>getPod\<close> stands for \<^verbatim>\<open>cs.metaServer.GetPod\<close>
  (\<open>None\<close> is its error); an error of \<^verbatim>\<open>updateContainerInfo\<close> is logged and the loop
  goes on.
\<close>

definition syncContainers ::
  "(string \<Rightarrow> 'pod option) \<Rightarrow> ('pod \<Rightarrow> string option) \<Rightarrow> GetCheckpointResponse
     \<Rightarrow> MetaCache \<Rightarrow> MetaCache" where
  "syncContainers getPod qosConf resp =
     fold (\<lambda>(entryName, entry) mc.
             case map_of entry FakedContainerName of
               Some _ \<Rightarrow> mc
             | None \<Rightarrow>
                 (case getPod entryName of
                    None \<Rightarrow> mc
                  | Some pod \<Rightarrow>
                      fold (\<lambda>(containerName, info) mc.
                              fst (updateContainerInfo qosConf mc entryName containerName pod info))
                           entry mc)) resp"

definition syncCheckpoint ::
  "(string \<Rightarrow> 'pod option) \<Rightarrow> ('pod \<Rightarrow> string option) \<Rightarrow> MetaCache \<Rightarrow> GetCheckpointResponse
     \<Rightarrow> int \<Rightarrow> MetaCache" where
  "syncCheckpoint getPod qosConf mc resp safeTime =
     (let (livingPoolNameSet, mc) = syncPools resp ({}, mc);
          mc = syncContainers getPod qosConf resp mc;
          mc = RangeAndDeleteContainer (notInCheckpoint resp) safeTime mc;
          livingPoolNameSet =
            RangeContainer (\<lambda>podUID containerName containerInfo s.
                              insert (OriginOwnerPoolName containerInfo) s) mc livingPoolNameSet
      in GCPoolEntries livingPoolNameSet mc)"

subsection \<open>Blocks, the block registry and the response under assembly\<close>

text \<open>
  A \<^verbatim>\<open>*cpuadvisor.Block\<close> is an address into \<open>blocks\<close>, the store of all blocks
  allocated during one assembly pass: the source shares blocks between the response and the
  registry and changes their overlap targets in place. \<open>Result\<close> is the \<^verbatim>\<open>uint64\<close>
  size. Following the spec, an overlap target is the identifier of the other block.
\<close>

record Block =
  Result :: "64 word"
  OverlapTargets :: "string list"
  BlockId :: string

text \<open>
  \<^verbatim>\<open>cpuadvisor.CalculationInfo\<close>; a \<^verbatim>\<open>NumaCalculationResult\<close> is the list of its
  blocks' addresses. A nil map reads like an empty one, so both are \<open>[]\<close>.
\<close>

record CalculationInfo =
  calc_OwnerPoolName :: string
  CalculationResultsByNumas :: "(int \<times> nat list) list"

type_synonym CalculationEntries = "(string \<times> CalculationInfo) list"

text \<open>
  What one call of \<^verbatim>\<open>assembleResponse\<close> builds: the block store, the source of fresh
  identifiers, the registry \<^verbatim>\<open>blockID2Blocks\<close> and \<^verbatim>\<open>calculationEntriesMap\<close>.
\<close>

record assembly =
  blocks :: "Block list"
  nextUUID :: nat
  bs :: "(string \<times> nat) list"
  calculationEntriesMap :: "(string \<times> CalculationEntries) list"

definition NewBlockSet :: assembly where
  "NewBlockSet = \<lparr>blocks = [], nextUUID = 0, bs = [], calculationEntriesMap = []\<rparr>"

text \<open>
  Modelled from the spec: the identifier generator is not in the sources at hand;
  \<^verbatim>\<open>NewBlock\<close> "generates a fresh unique identifier when none is supplied". The \<open>n\<close>-th
  identifier generated in a pass is \<open>NewUUID n\<close>: never empty, and different for different
  \<open>n\<close>.
\<close>

definition NewUUID :: "nat \<Rightarrow> string" where
  "NewUUID n = CHR ''b'' # replicate n (CHR ''+'')"

text \<open>
  Modelled from the spec: \<^verbatim>\<open>NewBlock(size, id)\<close> "constructs a block with the given
  capacity; generates a fresh unique identifier when none is supplied". The new block has
  no overlap target. The result is the address of the block.
\<close>

definition NewBlock :: "64 word \<Rightarrow> string \<Rightarrow> assembly \<Rightarrow> nat \<times> assembly" where
  "NewBlock result blockID st =
     (let (blockID, st) =
            (if blockID = '''' then (NewUUID (nextUUID st), st\<lparr>nextUUID := Suc (nextUUID st)\<rparr>)
             else (blockID, st))
      in (length (blocks st),
          st\<lparr>blocks := blocks st @ [\<lparr>Result = result, OverlapTargets = [], BlockId = blockID\<rparr>]\<rparr>))"

text \<open>
  Modelled from the spec: an InnerBlock is "an assembly-time association between a Block, a
  NUMA index, an owning pool or container, and the per-NUMA result container it belongs
  to". The per-NUMA result is a local value of the assembling function here, so the
  association keeps the other three.
\<close>

record internalBlock =
  ib_Block :: nat
  ib_NumaID :: int
  ib_PoolName :: string
  ib_ContainerInfo :: "ContainerInfo option"

definition NewInnerBlock :: "nat \<Rightarrow> int \<Rightarrow> string \<Rightarrow> ContainerInfo option \<Rightarrow> internalBlock" where
  "NewInnerBlock block numaID poolName containerInfo =
     \<lparr>ib_Block = block, ib_NumaID = numaID, ib_PoolName = poolName,
      ib_ContainerInfo = containerInfo\<rparr>"

definition addOverlapTarget :: "nat \<Rightarrow> string \<Rightarrow> Block list \<Rightarrow> Block list" where
  "addOverlapTarget a target bls =
     bls[a := (bls ! a)\<lparr>OverlapTargets := List.insert target (OverlapTargets (bls ! a))\<rparr>]"

text \<open>
  Modelled from the spec: \<^verbatim>\<open>Join(block, targetBlockId, registry)\<close> "registers block in
  registry keyed by its own identifier, then, if targetBlockId resolves to an existing block
  in registry, adds a symmetric overlap-target link between the two. Joining with a
  non-existent or empty target is a no-op beyond registration". Overlap targets are "other
  blocks", so a target that resolves to the block itself adds no link: that is the
  standalone join of the assembler, which passes the block's own identifier.
\<close>

definition join :: "internalBlock \<Rightarrow> string \<Rightarrow> assembly \<Rightarrow> assembly" where
  "join ib blockID st =
     (let a = ib_Block ib;
          st = st\<lparr>bs := AList.update (BlockId (blocks st ! a)) a (bs st)\<rparr>
      in case (if blockID = '''' then None else map_of (bs st) blockID) of
           None \<Rightarrow> st
         | Some t \<Rightarrow>
             if t = a then st
             else st\<lparr>blocks :=
                       addOverlapTarget t (BlockId (blocks st ! a))
                         (addOverlapTarget a (BlockId (blocks st ! t)) (blocks st))\<rparr>)"

text \<open>
  Modelled from the spec: \<^verbatim>\<open>NewPoolCalculationEntries\<close> and
  \<^verbatim>\<open>getNumaCalculationResult\<close> are helpers outside the sources at hand. A pool's blocks are
  "recorded under the pool's per-NUMA calculation result", in the row of the sentinel
  container name; the second helper reads the result of one entry, container and NUMA index.
\<close>

definition NewPoolCalculationEntries :: "string \<Rightarrow> CalculationEntries" where
  "NewPoolCalculationEntries poolName =
     [(FakedContainerName, \<lparr>calc_OwnerPoolName = poolName, CalculationResultsByNumas = []\<rparr>)]"

definition getNumaCalculationResult ::
  "(string \<times> CalculationEntries) list \<Rightarrow> string \<Rightarrow> string \<Rightarrow> int \<Rightarrow> nat list option" where
  "getNumaCalculationResult m entryName containerName numa =
     (case map_of m entryName of
        None \<Rightarrow> None
      | Some entries \<Rightarrow>
          (case map_of entries containerName of
             None \<Rightarrow> None
           | Some info \<Rightarrow> map_of (CalculationResultsByNumas info) numa))"

text \<open>
  \<^verbatim>\<open>types.InternalCPUCalculationResult\<close>: pool name to NUMA index to size, and the overlap
  sizes.

  Modelled from the spec: \<^verbatim>\<open>GetPoolOverlapInfo\<close> gives, for a pool and a NUMA index, the
  "overlap sizing" per shared pool; it is empty when none is given.
\<close>

record InternalCPUCalculationResult =
  PoolEntries :: "(string \<times> (int \<times> int) list) list"
  PoolOverlapInfo :: "(string \<times> (int \<times> (string \<times> int) list) list) list"
  AllowSharedCoresOverlapReclaimedCores :: bool

definition GetPoolOverlapInfo ::
  "InternalCPUCalculationResult \<Rightarrow> string \<Rightarrow> int \<Rightarrow> (string \<times> int) list" where
  "GetPoolOverlapInfo advisorResp poolName numaID =
     (case map_of (PoolOverlapInfo advisorResp) poolName of
        None \<Rightarrow> []
      | Some byNuma \<Rightarrow> (case map_of byNuma numaID of None \<Rightarrow> [] | Some overlap \<Rightarrow> overlap))"

text \<open>
  Modelled from the spec: \<^verbatim>\<open>IsDedicatedNumaBinding\<close> is a method of the container record,
  outside the sources at hand: it selects the "NUMA-bound dedicated containers".
\<close>

definition IsDedicatedNumaBinding :: "ContainerInfo \<Rightarrow> bool" where
  "IsDedicatedNumaBinding ci \<longleftrightarrow>
     QoSLevel ci = PodAnnotationQoSLevelDedicatedCores \<and> NumaBinding ci"

definition Size :: "CPUSet \<Rightarrow> int" where
  "Size cpuset = int (fcard cpuset)"

subsection \<open>Assembling the pool entries\<close>

text \<open>
  \<^verbatim>\<open>poolEntry.Entries[FakedContainerName].CalculationResultsByNumas[numaID] = r\<close>. The
  entry comes from \<^verbatim>\<open>NewPoolCalculationEntries\<close>, so the sentinel row is there; without
  it the source would dereference nil.
\<close>

definition setNumaCalculationResult :: "CalculationEntries \<Rightarrow> int \<Rightarrow> nat list \<Rightarrow> CalculationEntries" where
  "setNumaCalculationResult poolEntry numaID r =
     (case map_of poolEntry FakedContainerName of
        None \<Rightarrow> poolEntry
      | Some info \<Rightarrow>
          AList.update FakedContainerName
            (info\<lparr>CalculationResultsByNumas := AList.update numaID r (CalculationResultsByNumas info)\<rparr>)
            poolEntry)"

text \<open>The body of the loop over the NUMA indices of one pool: a block joined standalone.\<close>

definition assemblePoolNuma ::
  "string \<Rightarrow> int \<times> int \<Rightarrow> CalculationEntries \<times> assembly \<Rightarrow> CalculationEntries \<times> assembly" where
  "assemblePoolNuma poolName = (\<lambda>(numaID, poolSize) (poolEntry, st).
     (let (block, st) = NewBlock (word_of_int poolSize) '''' st;
          numaCalculationResult = [block];
          innerBlock = NewInnerBlock block numaID poolName None;
          st = join innerBlock (BlockId (blocks st ! block)) st
      in (setNumaCalculationResult poolEntry numaID numaCalculationResult, st)))"

text \<open>
  The body of the loop over the shared pools that overlap the reclaimed pool on one NUMA
  index. The block is made before the shared pool's result is looked at.
\<close>

definition assembleOverlap ::
  "int \<Rightarrow> string \<times> int \<Rightarrow> nat list \<times> CalculationEntries \<times> assembly
     \<Rightarrow> nat list \<times> CalculationEntries \<times> assembly" where
  "assembleOverlap numaID = (\<lambda>(sharedPoolName, reclaimedSize) (numaCalculationResult, poolEntry, st).
     (let (block, st) = NewBlock (word_of_int reclaimedSize) '''' st;
          (numaCalculationResult, st) =
            (case getNumaCalculationResult (calculationEntriesMap st) sharedPoolName
                    FakedContainerName numaID of
               None \<Rightarrow> (numaCalculationResult, st)
             | Some sharedBlocks \<Rightarrow>
                 if length sharedBlocks = 1
                 then (let innerBlock = NewInnerBlock block numaID PoolNameReclaim None
                       in (numaCalculationResult @ [block],
                           join innerBlock (BlockId (blocks st ! (sharedBlocks ! 0))) st))
                 else (numaCalculationResult, st))
      in (numaCalculationResult,
          setNumaCalculationResult poolEntry numaID numaCalculationResult, st)))"

text \<open>The body of the loop over the NUMA indices of the reclaimed pool, overlap allowed.\<close>

definition assembleReclaimNuma ::
  "InternalCPUCalculationResult \<Rightarrow> int \<times> int \<Rightarrow> CalculationEntries \<times> assembly
     \<Rightarrow> CalculationEntries \<times> assembly" where
  "assembleReclaimNuma advisorResp = (\<lambda>(numaID, reclaimSize) (poolEntry, st).
     (let overlapSize = GetPoolOverlapInfo advisorResp PoolNameReclaim numaID
      in if length overlapSize = 0
         then assemblePoolNuma PoolNameReclaim (numaID, reclaimSize) (poolEntry, st)
         else (let (numaCalculationResult, poolEntry, st) =
                     fold (assembleOverlap numaID) overlapSize ([], poolEntry, st)
               in (poolEntry, st))))"

text \<open>The body of the main loop over the pools: one pool with its per-NUMA sizes.\<close>

definition assemblePool ::
  "InternalCPUCalculationResult \<Rightarrow> string \<times> (int \<times> int) list \<Rightarrow> assembly \<Rightarrow> assembly" where
  "assemblePool advisorResp = (\<lambda>(poolName, entries) st.
     if poolName = PoolNameReclaim \<and> AllowSharedCoresOverlapReclaimedCores advisorResp
     then st
     else (let (poolEntry, st) =
                 fold (assemblePoolNuma poolName) entries
                   (NewPoolCalculationEntries poolName, st)
           in st\<lparr>calculationEntriesMap :=
                    AList.update poolName poolEntry (calculationEntriesMap st)\<rparr>))"

definition assemblePoolEntries :: "InternalCPUCalculationResult \<Rightarrow> assembly \<Rightarrow> assembly" where
  "assemblePoolEntries advisorResp st =
     (let st = fold (assemblePool advisorResp) (PoolEntries advisorResp) st
      in case map_of (PoolEntries advisorResp) PoolNameReclaim of
           None \<Rightarrow> st
         | Some reclaimEntries \<Rightarrow>
             if AllowSharedCoresOverlapReclaimedCores advisorResp
             then (let (poolEntry, st) =
                         fold (assembleReclaimNuma advisorResp) reclaimEntries
                           (NewPoolCalculationEntries PoolNameReclaim, st)
                   in st\<lparr>calculationEntriesMap :=
                            AList.update PoolNameReclaim poolEntry (calculationEntriesMap st)\<rparr>)
             else st)"

subsection \<open>Assembling the entry of one container\<close>

text \<open>Sidecar: one block of the sibling is taken over with its size and identifier.\<close>

definition reuseBlock ::
  "int \<Rightarrow> ContainerInfo \<Rightarrow> nat \<Rightarrow> nat list \<times> assembly \<Rightarrow> nat list \<times> assembly" where
  "reuseBlock numaID ci block = (\<lambda>(numaCalculationResult, st).
     (let (newBlock, st) = NewBlock (Result (blocks st ! block)) (BlockId (blocks st ! block)) st;
          newInnerBlock = NewInnerBlock newBlock numaID '''' (Some ci)
      in (numaCalculationResult @ [newBlock],
          join newInnerBlock (BlockId (blocks st ! block)) st)))"

text \<open>
  First container of its pod, reclaimed pool present on the NUMA index: a block of the
  reclaimed pool is claimed only while it has no overlap target.
\<close>

definition claimBlock ::
  "int \<Rightarrow> ContainerInfo \<Rightarrow> CPUSet \<Rightarrow> nat \<Rightarrow> nat list \<times> assembly \<Rightarrow> nat list \<times> assembly" where
  "claimBlock numaID ci cpuset block = (\<lambda>(numaCalculationResult, st).
     if length (OverlapTargets (blocks st ! block)) = 0
     then (let (newBlock, st) = NewBlock (word_of_int (Size cpuset)) '''' st;
               innerBlock = NewInnerBlock newBlock numaID '''' (Some ci)
           in (numaCalculationResult @ [newBlock],
               join innerBlock (BlockId (blocks st ! block)) st))
     else (numaCalculationResult, st))"

text \<open>
  The body of the loop over the container's topology-aware assignments. The sibling whose
  blocks are reused is the first one, in the order of the range, that has a result for the
  NUMA index.
\<close>

definition assemblePodNuma ::
  "string \<Rightarrow> ContainerInfo \<Rightarrow> int \<times> CPUSet \<Rightarrow> (int \<times> nat list) list \<times> assembly
     \<Rightarrow> (int \<times> nat list) list \<times> assembly" where
  "assemblePodNuma podUID ci = (\<lambda>(numaID, cpuset) (calculationResultsByNumas, st).
     (let (numaCalculationResult, st) =
            (case map_of (calculationEntriesMap st) podUID of
               Some podEntries \<Rightarrow>
                 (case find (\<lambda>(containerName, containerEntry).
                              map_of (CalculationResultsByNumas containerEntry) numaID \<noteq> None)
                         podEntries of
                    None \<Rightarrow> ([], st)
                  | Some (containerName, containerEntry) \<Rightarrow>
                      (case map_of (CalculationResultsByNumas containerEntry) numaID of
                         None \<Rightarrow> ([], st)
                       | Some result \<Rightarrow> fold (reuseBlock numaID ci) result ([], st)))
             | None \<Rightarrow>
                 (case getNumaCalculationResult (calculationEntriesMap st) PoolNameReclaim
                         FakedContainerName numaID of
                    None \<Rightarrow>
                      (let (block, st) = NewBlock (word_of_int (Size cpuset)) '''' st;
                           innerBlock = NewInnerBlock block numaID '''' (Some ci)
                       in ([block], join innerBlock (BlockId (blocks st ! block)) st))
                  | Some reclaimBlocks \<Rightarrow>
                      fold (claimBlock numaID ci cpuset) reclaimBlocks ([], st)))
      in (AList.update numaID numaCalculationResult calculationResultsByNumas, st)))"

text \<open>The owner pool name that is published for a container.\<close>

definition publishedOwnerPoolName :: "ContainerInfo \<Rightarrow> string" where
  "publishedOwnerPoolName ci =
     (let ownerPoolName = OwnerPoolName ci;
          ownerPoolName =
            (if Isolated ci
             then (if length (RegionNames ci) = 1 \<and> OwnerPoolName ci \<noteq> RegionNames ci ! 0
                   then RegionNames ci ! 0 else ownerPoolName)
             else ownerPoolName)
      in if \<not> Isolated ci \<and> OwnerPoolName ci \<noteq> OriginOwnerPoolName ci
         then OriginOwnerPoolName ci else ownerPoolName)"

definition assemblePodEntries :: "assembly \<Rightarrow> string \<Rightarrow> ContainerInfo \<Rightarrow> assembly \<times> error option" where
  "assemblePodEntries st podUID ci =
     (let ownerPoolName = publishedOwnerPoolName ci
      in if (QoSLevel ci = PodAnnotationQoSLevelSharedCores
             \<or> QoSLevel ci = PodAnnotationQoSLevelReclaimedCores)
            \<and> ownerPoolName = ''''
         then (st, None)
         else if (QoSLevel ci = PodAnnotationQoSLevelSharedCores
                  \<or> QoSLevel ci = PodAnnotationQoSLevelReclaimedCores)
                 \<and> map_of (calculationEntriesMap st) ownerPoolName = None
         then (st, None)
         else
           (let (calculationResultsByNumas, st) =
                  (if IsDedicatedNumaBinding ci
                   then fold (assemblePodNuma podUID ci) (TopologyAwareAssignments ci) ([], st)
                   else ([], st));
                calculationInfo = \<lparr>calc_OwnerPoolName = ownerPoolName,
                                   CalculationResultsByNumas = calculationResultsByNumas\<rparr>;
                calculationEntries =
                  (case map_of (calculationEntriesMap st) podUID of
                     None \<Rightarrow> []
                   | Some entries \<Rightarrow> entries)
            in (st\<lparr>calculationEntriesMap :=
                      AList.update podUID
                        (AList.update (ContainerName ci) calculationInfo calculationEntries)
                        (calculationEntriesMap st)\<rparr>, None)))"

subsection \<open>The single-flight loop\<close>

text \<open>
  The server, as far as the loop is concerned: the single-flight flag and the cache. What
  the \<^verbatim>\<open>select\<close> of the loop receives is an event; a timer event carries what the
  plugin answers to \<^verbatim>\<open>GetCheckpoint\<close> at that tick (\<open>None\<close> for an error or a nil
  response) and the safe time taken before the call. Of \<^verbatim>\<open>getAndPushAdvice\<close> only
  the reconciliation changes the server; computing, assembling and sending the advice do
  not.
\<close>

record cpuServer =
  hasListAndWatchLoop :: bool
  metaCache :: MetaCache

datatype event = ContextDone | StopCh | TimerC "GetCheckpointResponse option" int

definition getAndSyncCheckpoint ::
  "(string \<Rightarrow> 'pod option) \<Rightarrow> ('pod \<Rightarrow> string option) \<Rightarrow> GetCheckpointResponse option \<Rightarrow> int
     \<Rightarrow> cpuServer \<Rightarrow> cpuServer" where
  "getAndSyncCheckpoint getPod qosConf getCheckpointResp safeTime cs =
     (case getCheckpointResp of
        None \<Rightarrow> cs
      | Some resp \<Rightarrow> cs\<lparr>metaCache := syncCheckpoint getPod qosConf (metaCache cs) resp safeTime\<rparr>)"

text \<open>
  The \<^verbatim>\<open>for { select ... }\<close> of \<^verbatim>\<open>ListAndWatch\<close> over the events that arrive.
  \<open>None\<close>: the events are used up and the loop is still running.
\<close>

fun listAndWatchLoop ::
  "(string \<Rightarrow> 'pod option) \<Rightarrow> ('pod \<Rightarrow> string option) \<Rightarrow> event list \<Rightarrow> cpuServer
     \<Rightarrow> cpuServer option" where
  "listAndWatchLoop getPod qosConf [] cs = None"
| "listAndWatchLoop getPod qosConf (ContextDone # events) cs = Some cs"
| "listAndWatchLoop getPod qosConf (StopCh # events) cs = Some cs"
| "listAndWatchLoop getPod qosConf (TimerC resp safeTime # events) cs =
     listAndWatchLoop getPod qosConf events (getAndSyncCheckpoint getPod qosConf resp safeTime cs)"

text \<open>
  \<^verbatim>\<open>ListAndWatch\<close>. \<open>clientOk\<close> says whether \<^verbatim>\<open>createQRMClient\<close> succeeds. The
  atomic \<^verbatim>\<open>Swap(true)\<close> is one step: it returns the old flag and leaves the flag set.
  The deferred \<^verbatim>\<open>Store(false)\<close> runs on every return after it was registered.
\<close>

definition ListAndWatch ::
  "(string \<Rightarrow> 'pod option) \<Rightarrow> ('pod \<Rightarrow> string option) \<Rightarrow> bool \<Rightarrow> event list \<Rightarrow> cpuServer
     \<Rightarrow> (cpuServer \<times> error option) option" where
  "ListAndWatch getPod qosConf clientOk events cs =
     (let old = hasListAndWatchLoop cs;
          cs = cs\<lparr>hasListAndWatchLoop := True\<rparr>
      in if old then Some (cs, Some AnotherLoopRunning)
         else if \<not> clientOk then Some (cs\<lparr>hasListAndWatchLoop := False\<rparr>, Some CreateClientFailed)
         else (case listAndWatchLoop getPod qosConf events cs of
                 None \<Rightarrow> None
               | Some cs \<Rightarrow> Some (cs\<lparr>hasListAndWatchLoop := False\<rparr>, None)))"

text \<open>
  The states of the server at the \<^verbatim>\<open>select\<close> of each round of the loop, in order: the
  state the loop is entered with, then the state after each timer round.
\<close>

fun listAndWatchLoopStates ::
  "(string \<Rightarrow> 'pod option) \<Rightarrow> ('pod \<Rightarrow> string option) \<Rightarrow> event list \<Rightarrow> cpuServer
     \<Rightarrow> cpuServer list" where
  "listAndWatchLoopStates getPod qosConf [] cs = [cs]"
| "listAndWatchLoopStates getPod qosConf (ContextDone # events) cs = [cs]"
| "listAndWatchLoopStates getPod qosConf (StopCh # events) cs = [cs]"
| "listAndWatchLoopStates getPod qosConf (TimerC resp safeTime # events) cs =
     cs # listAndWatchLoopStates getPod qosConf events
            (getAndSyncCheckpoint getPod qosConf resp safeTime cs)"

text \<open>
  The states of the server during a call of \<^verbatim>\<open>ListAndWatch\<close>, from the
  \<^verbatim>\<open>Swap(true)\<close> up to the return (before the deferred \<^verbatim>\<open>Store(false)\<close>, if it
  was registered): these are the states that another call can find.
\<close>

definition ListAndWatchStates ::
  "(string \<Rightarrow> 'pod option) \<Rightarrow> ('pod \<Rightarrow> string option) \<Rightarrow> bool \<Rightarrow> event list \<Rightarrow> cpuServer
     \<Rightarrow> cpuServer list" where
  "ListAndWatchStates getPod qosConf clientOk events cs =
     (let old = hasListAndWatchLoop cs;
          cs = cs\<lparr>hasListAndWatchLoop := True\<rparr>
      in if old then [cs]
         else if \<not> clientOk then [cs]
         else listAndWatchLoopStates getPod qosConf events cs)"

subsection \<open>Concrete inputs\<close>

text \<open>A checkpoint row, a cached container, caches and collaborators to run the code on.\<close>

definition exampleInfo :: AllocationInfo where
  "exampleInfo = \<lparr>ai_RampUp = False, ai_OwnerPoolName = ''share'',
     ai_TopologyAwareAssignments = [(0, {|0, 1|})],
     ai_OriginalTopologyAwareAssignments = [(0, {|0, 1|})]\<rparr>"

definition exampleContainer :: ContainerInfo where
  "exampleContainer = \<lparr>PodUID = ''pod1'', PodNamespace = ''default'', PodName = ''web'',
     ContainerName = ''main'', QoSLevel = ''shared_cores'', NumaBinding = False, RampUp = True,
     OwnerPoolName = ''batch'', OriginOwnerPoolName = ''batch'',
     TopologyAwareAssignments = [], OriginalTopologyAwareAssignments = [],
     Isolated = False, RegionNames = [], Timestamp = 5\<rparr>"

definition exampleCache :: MetaCache where
  "exampleCache = \<lparr>containerInfos = [((''pod1'', ''main''), exampleContainer)], poolInfos = []\<rparr>"

definition emptyCache :: MetaCache where
  "emptyCache = \<lparr>containerInfos = [], poolInfos = []\<rparr>"

definition exampleGetPod :: "string \<Rightarrow> unit option" where
  "exampleGetPod podUID = Some ()"

definition exampleQosConf :: "unit \<Rightarrow> string option" where
  "exampleQosConf pod = Some ''shared_cores''"

definition failingQosConf :: "unit \<Rightarrow> string option" where
  "failingQosConf pod = None"

definition exampleCheckpoint :: GetCheckpointResponse where
  "exampleCheckpoint = [(''share'', [('''', exampleInfo)]), (''pod1'', [(''main'', exampleInfo)])]"

definition exampleCalls :: "(string \<times> string \<times> unit \<times> AllocationInfo) list" where
  "exampleCalls = [(''pod1'', ''main'', (), exampleInfo), (''pod2'', ''main'', (), exampleInfo)]"

definition exampleShared :: ContainerInfo where
  "exampleShared = \<lparr>PodUID = ''pod2'', PodNamespace = ''default'', PodName = ''job'',
     ContainerName = ''main'', QoSLevel = ''shared_cores'', NumaBinding = False, RampUp = False,
     OwnerPoolName = ''share'', OriginOwnerPoolName = ''share'',
     TopologyAwareAssignments = [], OriginalTopologyAwareAssignments = [],
     Isolated = False, RegionNames = [], Timestamp = 7\<rparr>"

definition runningServer :: cpuServer where
  "runningServer = \<lparr>hasListAndWatchLoop = True, metaCache = exampleCache\<rparr>"

definition idleServer :: cpuServer where
  "idleServer = \<lparr>hasListAndWatchLoop = False, metaCache = exampleCache\<rparr>"

definition exampleEvents :: "event list" where
  "exampleEvents = [TimerC None 3, TimerC (Some exampleCheckpoint) 10, StopCh]"

text \<open>
  For stating properties: the names that have a pool row (a row with the sentinel sub-key)
  in a checkpoint, and the fields of a cached container that reconciliation never writes.
\<close>

definition poolRows :: "GetCheckpointResponse \<Rightarrow> string set" where
  "poolRows resp = set (map fst (filter (\<lambda>(n, e). map_of e FakedContainerName \<noteq> None) resp))"

definition identity :: "ContainerInfo \<Rightarrow> string \<times> string \<times> int" where
  "identity ci = (PodUID ci, ContainerName ci, Timestamp ci)"

definition poolRowInfo :: AllocationInfo where
  "poolRowInfo = \<lparr>ai_RampUp = False, ai_OwnerPoolName = ''share'',
     ai_TopologyAwareAssignments = [(0, {|0, 1, 2, 3|})],
     ai_OriginalTopologyAwareAssignments = [(0, {|0, 1, 2, 3|})]\<rparr>"

text \<open>A checkpoint whose container row comes before the row of the pool it names.\<close>

definition containerFirstCheckpoint :: GetCheckpointResponse where
  "containerFirstCheckpoint =
     [(''pod1'', [(''main'', exampleInfo)]), (''share'', [('''', poolRowInfo)])]"

definition staleContainer :: ContainerInfo where
  "staleContainer = \<lparr>PodUID = ''pod9'', PodNamespace = ''default'', PodName = ''gone'',
     ContainerName = ''old'', QoSLevel = ''shared_cores'', NumaBinding = False, RampUp = False,
     OwnerPoolName = ''stale'', OriginOwnerPoolName = ''stale'',
     TopologyAwareAssignments = [], OriginalTopologyAwareAssignments = [],
     Isolated = False, RegionNames = [], Timestamp = 5\<rparr>"

definition examplePool :: "string \<Rightarrow> PoolInfo" where
  "examplePool n = \<lparr>PoolName = n, pi_TopologyAwareAssignments = [(0, {|4, 5|})],
     pi_OriginalTopologyAwareAssignments = [(0, {|4, 5|})]\<rparr>"

definition gcCache :: MetaCache where
  "gcCache = \<lparr>containerInfos = [((''pod1'', ''main''), exampleContainer),
                                 ((''pod9'', ''old''), staleContainer)],
              poolInfos = [(''batch'', examplePool ''batch''), (''stale'', examplePool ''stale'')]\<rparr>"

text \<open>
  For stating properties of an assembly pass. A state is well formed when every block
  carries an identifier that the pass has generated, every entry of the registry leads to a
  block with that identifier, and every block listed in the response is in the store. One
  state grows into another when the blocks of the first are still there with their
  identifiers and sizes, and their overlap targets have only gained members.
\<close>

definition wellFormed :: "assembly \<Rightarrow> bool" where
  "wellFormed st \<longleftrightarrow>
     (\<forall>b \<in> set (blocks st). BlockId b \<in> set (map NewUUID [0..<nextUUID st]))
     \<and> (\<forall>(i, x) \<in> set (bs st). x < length (blocks st) \<and> BlockId (blocks st ! x) = i)
     \<and> (\<forall>(p, entries) \<in> set (calculationEntriesMap st).
          \<forall>(c, info) \<in> set entries.
            \<forall>(n, bl) \<in> set (CalculationResultsByNumas info).
              \<forall>x \<in> set bl. x < length (blocks st))"

definition grows :: "assembly \<Rightarrow> assembly \<Rightarrow> bool" where
  "grows st st' \<longleftrightarrow>
     length (blocks st) \<le> length (blocks st') \<and> nextUUID st \<le> nextUUID st'
     \<and> (\<forall>x < length (blocks st).
           BlockId (blocks st' ! x) = BlockId (blocks st ! x)
           \<and> Result (blocks st' ! x) = Result (blocks st ! x)
           \<and> set (OverlapTargets (blocks st ! x)) \<subseteq> set (OverlapTargets (blocks st' ! x)))"

text \<open>Identifier and size of the block at an address: what the wire carries of it.\<close>

definition idSize :: "assembly \<Rightarrow> nat \<Rightarrow> string \<times> 64 word" where
  "idSize st a = (BlockId (blocks st ! a), Result (blocks st ! a))"

text \<open>
  An advice with the reclaimed pool alone, two CPUs on NUMA index 0, and dedicated NUMA-bound
  containers with two CPUs there; the pass up to the pools, and after one and two containers
  of different pods.
\<close>

definition reclaimOnlyAdvice :: InternalCPUCalculationResult where
  "reclaimOnlyAdvice = \<lparr>PoolEntries = [(''reclaim'', [(0, 4)])], PoolOverlapInfo = [],
     AllowSharedCoresOverlapReclaimedCores = False\<rparr>"

definition dedicatedContainer :: "string \<Rightarrow> string \<Rightarrow> ContainerInfo" where
  "dedicatedContainer p c = \<lparr>PodUID = p, PodNamespace = ''default'', PodName = p,
     ContainerName = c, QoSLevel = ''dedicated_cores'', NumaBinding = True, RampUp = False,
     OwnerPoolName = ''dedicated'', OriginOwnerPoolName = ''dedicated'',
     TopologyAwareAssignments = [(0, {|0, 1|})], OriginalTopologyAwareAssignments = [(0, {|0, 1|})],
     Isolated = False, RegionNames = [], Timestamp = 0\<rparr>"

definition pooled :: assembly where
  "pooled = assemblePoolEntries reclaimOnlyAdvice NewBlockSet"

definition afterFirst :: assembly where
  "afterFirst = fst (assemblePodEntries pooled ''pod-a'' (dedicatedContainer ''pod-a'' ''main''))"

definition afterSecond :: assembly where
  "afterSecond = fst (assemblePodEntries afterFirst ''pod-b'' (dedicatedContainer ''pod-b'' ''main''))"

text \<open>The pass after the first container and a second container of the same pod.\<close>

definition afterSidecar :: assembly where
  "afterSidecar = fst (assemblePodEntries afterFirst ''pod-a'' (dedicatedContainer ''pod-a'' ''sidecar''))"

text \<open>
  For stating properties of the pool pass: every block listed in the response is the one
  the registry gives for its identifier; and the result that a pool entry under
  construction holds for a NUMA index.
\<close>

definition registered :: "assembly \<Rightarrow> bool" where
  "registered st \<longleftrightarrow>
     (\<forall>(p, entries) \<in> set (calculationEntriesMap st).
        \<forall>(c, info) \<in> set entries.
          \<forall>(n, bl) \<in> set (CalculationResultsByNumas info).
            \<forall>x \<in> set bl. map_of (bs st) (BlockId (blocks st ! x)) = Some x)"

definition poolResult :: "CalculationEntries \<Rightarrow> int \<Rightarrow> nat list option" where
  "poolResult poolEntry n =
     (case map_of poolEntry FakedContainerName of
        None \<Rightarrow> None
      | Some info \<Rightarrow> map_of (CalculationResultsByNumas info) n)"

text \<open>
  A block is in the registry when the registry gives it for its identifier.  A pool entry
  under construction is sound when it has the row of the pool itself and all its blocks are
  in the registry.
\<close>

definition inRegistry :: "assembly \<Rightarrow> nat \<Rightarrow> bool" where
  "inRegistry st x \<longleftrightarrow>
     x < length (blocks st) \<and> map_of (bs st) (BlockId (blocks st ! x)) = Some x"

definition soundEntry :: "CalculationEntries \<Rightarrow> assembly \<Rightarrow> bool" where
  "soundEntry pe st \<longleftrightarrow>
     map_of pe FakedContainerName \<noteq> None
     \<and> (\<forall>c info n bl x. (c, info) \<in> set pe \<longrightarrow> (n, bl) \<in> set (CalculationResultsByNumas info) \<longrightarrow>
           x \<in> set bl \<longrightarrow> inRegistry st x)"

text \<open>
  A step of the pass over the reclaimed pool: the store grows, the response stays, the blocks
  from address \<open>L\<close> on are left as they are, and the registry keeps what it gives for the
  identifiers of the blocks there.
\<close>

definition extends :: "nat \<Rightarrow> assembly \<Rightarrow> assembly \<Rightarrow> bool" where
  "extends L st st' \<longleftrightarrow>
     grows st st'
     \<and> calculationEntriesMap st' = calculationEntriesMap st
     \<and> (\<forall>y < length (blocks st). L \<le> y \<longrightarrow> blocks st' ! y = blocks st ! y)
     \<and> (\<forall>x < length (blocks st).
          map_of (bs st') (BlockId (blocks st ! x)) = map_of (bs st) (BlockId (blocks st ! x)))"

text \<open>
  A block is joined to another when the other is its one overlap target and it is an overlap
  target of the other.  A pool can be overlapped at a NUMA index when it has exactly one
  block there.  The block of the reclaimed pool made for a pool of the overlap sizing has
  the overlapping size and is joined to the one block that the pool had when the pass over
  the reclaimed pool began (state \<open>mid\<close>).
\<close>

definition linked :: "assembly \<Rightarrow> nat \<Rightarrow> nat \<Rightarrow> bool" where
  "linked st b s \<longleftrightarrow>
     b < length (blocks st) \<and> s < length (blocks st)
     \<and> OverlapTargets (blocks st ! b) = [BlockId (blocks st ! s)]
     \<and> BlockId (blocks st ! b) \<in> set (OverlapTargets (blocks st ! s))"

definition overlappable :: "assembly \<Rightarrow> int \<Rightarrow> string \<Rightarrow> bool" where
  "overlappable st n sharedPoolName \<longleftrightarrow>
     (case getNumaCalculationResult (calculationEntriesMap st) sharedPoolName FakedContainerName n of
        None \<Rightarrow> False
      | Some sharedBlocks \<Rightarrow> length sharedBlocks = 1)"

definition overlapBlock :: "assembly \<Rightarrow> assembly \<Rightarrow> int \<Rightarrow> nat \<Rightarrow> string \<times> int \<Rightarrow> bool" where
  "overlapBlock mid st n b = (\<lambda>(sharedPoolName, reclaimedSize).
     Result (blocks st ! b) = word_of_int reclaimedSize
     \<and> (case getNumaCalculationResult (calculationEntriesMap mid) sharedPoolName FakedContainerName n of
          None \<Rightarrow> False
        | Some sharedBlocks \<Rightarrow> length sharedBlocks = 1 \<and> linked st b (sharedBlocks ! 0)))"

text \<open>
  An advice with the overlap flag: on NUMA index 0 the reclaimed pool overlaps the shared
  pool and the pool \<open>batch\<close>, which the advice does not size; on NUMA index 1 it has no
  overlap sizing.  And a state to start the pass from in which \<open>batch\<close> has two blocks on
  NUMA index 0.
\<close>

definition overlapAdvice :: InternalCPUCalculationResult where
  "overlapAdvice = \<lparr>PoolEntries = [(''share'', [(0, 4000), (1, 2000)]),
                                    (''reclaim'', [(0, 1000), (1, 500)])],
     PoolOverlapInfo = [(''reclaim'', [(0, [(''share'', 1000), (''batch'', 300)])])],
     AllowSharedCoresOverlapReclaimedCores = True\<rparr>"

definition severalBlocks :: assembly where
  "severalBlocks = \<lparr>blocks = [\<lparr>Result = 300, OverlapTargets = [], BlockId = NewUUID 0\<rparr>,
                               \<lparr>Result = 200, OverlapTargets = [], BlockId = NewUUID 1\<rparr>],
     nextUUID = 2, bs = [(NewUUID 0, 0), (NewUUID 1, 1)],
     calculationEntriesMap =
       [(''batch'', [(FakedContainerName,
                      \<lparr>calc_OwnerPoolName = ''batch'',
                         CalculationResultsByNumas = [(0, [0, 1])]\<rparr>)])]\<rparr>"

definition overlapMain :: assembly where
  "overlapMain = fold (assemblePool overlapAdvice) (PoolEntries overlapAdvice) severalBlocks"

definition overlapPooled :: assembly where
  "overlapPooled = assemblePoolEntries overlapAdvice severalBlocks"

section \<open>Properties\<close>

subsection \<open>Reconciliation keeps the set of cached containers\<close>

lemma map_of_Some_key: "map_of al k = Some v \<Longrightarrow> k \<in> fst ` set al"
  by (induction al) (auto split: if_splits)

lemma update_keys_present:
  "map_of al k = Some v \<Longrightarrow> map fst (AList.update k v' al) = map fst al"
  by (simp add: AList.update_keys map_of_Some_key)

lemma map_of_filter_None:
  "map_of xs k = None \<Longrightarrow> map_of (filter P xs) k = None"
  by (induction xs) auto

lemma updateContainerInfo_keys:
  "map fst (containerInfos (fst (updateContainerInfo qosConf mc p c pod info))) =
     map fst (containerInfos mc)"
proof (cases "GetContainerInfo mc p c")
  case None
  then show ?thesis by (simp add: updateContainerInfo_def)
next
  case (Some ci)
  then have k: "\<And>v. map fst (AList.update (p, c) v (containerInfos mc)) = map fst (containerInfos mc)"
    by (simp add: GetContainerInfo_def update_keys_present)
  show ?thesis
    by (simp add: updateContainerInfo_def Some Let_def SetContainerInfo_def k split: option.split)
qed

lemma updateContainerInfo_pools:
  "poolInfos (fst (updateContainerInfo qosConf mc p c pod info)) = poolInfos mc"
  by (simp add: updateContainerInfo_def SetContainerInfo_def Let_def split: option.split)

lemma fold_updateContainerInfo_keys:
  "map fst (containerInfos (fold (\<lambda>(containerName, info) mc.
        fst (updateContainerInfo qosConf mc p containerName pod info)) entry mc)) =
     map fst (containerInfos mc)"
proof (induction entry arbitrary: mc)
  case Nil
  show ?case by simp
next
  case (Cons e entry)
  show ?case by (cases e) (simp add: Cons.IH updateContainerInfo_keys)
qed

lemma fold_updateContainerInfo_pools:
  "poolInfos (fold (\<lambda>(containerName, info) mc.
        fst (updateContainerInfo qosConf mc p containerName pod info)) entry mc) = poolInfos mc"
proof (induction entry arbitrary: mc)
  case Nil
  show ?case by simp
next
  case (Cons e entry)
  show ?case by (cases e) (simp add: Cons.IH updateContainerInfo_pools)
qed

lemma syncContainers_keys:
  "map fst (containerInfos (syncContainers getPod qosConf resp mc)) = map fst (containerInfos mc)"
  unfolding syncContainers_def
proof (induction resp arbitrary: mc)
  case Nil
  show ?case by simp
next
  case (Cons e resp)
  show ?case
    by (cases e) (simp add: Cons.IH fold_updateContainerInfo_keys split: option.split)
qed

lemma syncContainers_pools:
  "poolInfos (syncContainers getPod qosConf resp mc) = poolInfos mc"
  unfolding syncContainers_def
proof (induction resp arbitrary: mc)
  case Nil
  show ?case by simp
next
  case (Cons e resp)
  show ?case
    by (cases e) (simp add: Cons.IH fold_updateContainerInfo_pools split: option.split)
qed

lemma updatePoolInfo_containers:
  "containerInfos (fst (updatePoolInfo mc n info)) = containerInfos mc"
  by (simp add: updatePoolInfo_def SetPoolInfo_def Let_def)

lemma syncPools_containers:
  "containerInfos (snd (syncPools resp (s, mc))) = containerInfos mc"
  unfolding syncPools_def
proof (induction resp arbitrary: s mc)
  case Nil
  show ?case by simp
next
  case (Cons e resp)
  show ?case
    by (cases e) (simp add: Cons.IH updatePoolInfo_containers split: option.split)
qed

text \<open>The containers after a reconciliation: what the two passes leave, minus the deleted.\<close>

lemma syncCheckpoint_containers:
  "containerInfos (syncCheckpoint getPod qosConf mc resp safeTime) =
     filter (\<lambda>(k, ci). \<not> (\<not> safeTime < Timestamp ci \<and> notInCheckpoint resp ci))
       (containerInfos (syncContainers getPod qosConf resp (snd (syncPools resp ({}, mc)))))"
  by (simp add: syncCheckpoint_def Let_def GCPoolEntries_def RangeAndDeleteContainer_def
      split: prod.split)

lemma syncCheckpoint_no_create:
  assumes "GetContainerInfo mc podUID containerName = None"
  shows "GetContainerInfo (syncCheckpoint getPod qosConf mc resp safeTime) podUID containerName = None"
proof -
  have "(podUID, containerName) \<notin> set (map fst (containerInfos mc))"
    using assms by (simp add: GetContainerInfo_def map_of_eq_None_iff)
  then have "(podUID, containerName) \<notin>
      set (map fst (containerInfos (syncContainers getPod qosConf resp (snd (syncPools resp ({}, mc))))))"
    by (simp add: syncContainers_keys syncPools_containers)
  then have "map_of (containerInfos (syncContainers getPod qosConf resp
      (snd (syncPools resp ({}, mc))))) (podUID, containerName) = None"
    by (simp add: map_of_eq_None_iff)
  then show ?thesis
    by (simp add: GetContainerInfo_def syncCheckpoint_containers map_of_filter_None)
qed

subsection \<open>A failed QoS lookup\<close>

text \<open>
  C10. When \<open>updateContainerInfo\<close> finds the container but the QoS-level lookup for its pod
  fails, it returns the error and the cache is the one it was called with: the container's
  cached record is unchanged, none of the fields written before the lookup is stored.
\<close>

theorem updateContainerInfo_qos_failure_keeps_cache:
  assumes "GetContainerInfo mc podUID containerName = Some ci"
    and "qosConf pod = None"
  shows "updateContainerInfo qosConf mc podUID containerName pod info =
           (mc, Some (GetQoSLevelFailed podUID containerName))
         \<and> GetContainerInfo (fst (updateContainerInfo qosConf mc podUID containerName pod info))
              podUID containerName = Some ci"
  using assms by (simp add: updateContainerInfo_def Let_def)

theorem updateContainerInfo_qos_failure_keeps_cache_witness:
  "GetContainerInfo exampleCache ''pod1'' ''main'' = Some exampleContainer
   \<and> failingQosConf () = None
   \<and> updateContainerInfo failingQosConf exampleCache ''pod1'' ''main'' () exampleInfo =
       (exampleCache, Some (GetQoSLevelFailed ''pod1'' ''main''))"
proof -
  have h1: "GetContainerInfo exampleCache ''pod1'' ''main'' = Some exampleContainer"
    by (simp add: GetContainerInfo_def exampleCache_def)
  have h2: "failingQosConf () = None"
    by (simp add: failingQosConf_def)
  from updateContainerInfo_qos_failure_keeps_cache
      [where qosConf = failingQosConf and pod = "()" and info = exampleInfo, OF h1 h2] h1 h2
  show ?thesis by simp
qed

subsection \<open>Containers the cache does not know\<close>

text \<open>
  C2, as stated, fails: a checkpoint that names a container the cache does not hold leaves
  the cache without a record for it. Here the cache is empty and the checkpoint has the row
  of container main of pod pod1.
\<close>

theorem reconcile_creates_container_counterexample:
  "GetContainerInfo emptyCache ''pod1'' ''main'' = None
   \<and> map_of exampleCheckpoint ''pod1'' = Some [(''main'', exampleInfo)]
   \<and> GetContainerInfo (syncCheckpoint exampleGetPod exampleQosConf emptyCache exampleCheckpoint 0)
        ''pod1'' ''main'' = None"
  using syncCheckpoint_no_create
    [of emptyCache "''pod1''" "''main''" exampleGetPod exampleQosConf exampleCheckpoint 0]
  by (simp add: GetContainerInfo_def emptyCache_def exampleCheckpoint_def)

text \<open>
  C2, amended. For a pair of pod UID and container name that the cache does not hold,
  \<open>updateContainerInfo\<close> returns the error "container not exist" and leaves the cache as it
  is, and after a whole reconciliation, whatever the checkpoint, the cache still has no
  record for the pair: reconciliation updates the containers it finds and creates none.
\<close>

theorem reconcile_never_creates_container:
  assumes "GetContainerInfo mc podUID containerName = None"
  shows "updateContainerInfo qosConf mc podUID containerName pod info =
           (mc, Some (ContainerNotExist podUID containerName))
         \<and> GetContainerInfo (syncCheckpoint getPod qosConf mc resp safeTime) podUID containerName
             = None"
  using assms syncCheckpoint_no_create [OF assms]
  by (simp add: updateContainerInfo_def)

theorem reconcile_never_creates_container_witness:
  "GetContainerInfo emptyCache ''pod1'' ''main'' = None
   \<and> updateContainerInfo exampleQosConf emptyCache ''pod1'' ''main'' () exampleInfo =
           (emptyCache, Some (ContainerNotExist ''pod1'' ''main''))
   \<and> GetContainerInfo (syncCheckpoint exampleGetPod exampleQosConf emptyCache exampleCheckpoint 0)
        ''pod1'' ''main'' = None"
proof -
  have h: "GetContainerInfo emptyCache ''pod1'' ''main'' = None"
    by (simp add: GetContainerInfo_def emptyCache_def)
  from reconcile_never_creates_container
    [where qosConf = exampleQosConf and pod = "()" and info = exampleInfo
       and getPod = exampleGetPod and resp = exampleCheckpoint and safeTime = 0, OF h] h
  show ?thesis by simp
qed

subsection \<open>The origin owner pool\<close>

lemma updateContainerInfo_origin:
  assumes "GetContainerInfo mc p c = Some ci" and "OriginOwnerPoolName ci \<noteq> ''''"
  shows "\<exists>ci'. GetContainerInfo (fst (updateContainerInfo qosConf mc p' c' pod info)) p c = Some ci'
           \<and> OriginOwnerPoolName ci' = OriginOwnerPoolName ci"
proof (cases "GetContainerInfo mc p' c'")
  case None
  then show ?thesis using assms by (simp add: updateContainerInfo_def)
next
  case (Some cj)
  show ?thesis
  proof (cases "qosConf pod")
    case None
    then show ?thesis using assms Some by (simp add: updateContainerInfo_def Let_def)
  next
    case (Some q)
    show ?thesis
    proof (cases "(p', c') = (p, c)")
      case True
      then have "cj = ci" using assms(1) \<open>GetContainerInfo mc p' c' = Some cj\<close> by simp
      then show ?thesis
        using assms(2) True Some \<open>GetContainerInfo mc p' c' = Some cj\<close>
        by (simp add: updateContainerInfo_def Let_def GetContainerInfo_def SetContainerInfo_def
            AList.update_conv' split: option.split)
    next
      case False
      then show ?thesis
        using assms(1) Some \<open>GetContainerInfo mc p' c' = Some cj\<close>
        by (auto simp add: updateContainerInfo_def Let_def GetContainerInfo_def SetContainerInfo_def
            AList.update_conv' split: option.split)
    qed
  qed
qed

text \<open>
  C3. Once a cached container has a non-empty \<open>OriginOwnerPoolName\<close>, any sequence of
  \<open>updateContainerInfo\<close> calls, each for any pod UID, container name, pod and checkpoint
  row, leaves the container in the cache with the same \<open>OriginOwnerPoolName\<close>.
\<close>

theorem OriginOwnerPoolName_immutable:
  assumes "GetContainerInfo mc podUID containerName = Some ci"
    and "OriginOwnerPoolName ci \<noteq> ''''"
  shows "\<exists>ci'. GetContainerInfo
             (fold (\<lambda>(p, c, pod, info) mc. fst (updateContainerInfo qosConf mc p c pod info)) calls mc)
             podUID containerName = Some ci'
           \<and> OriginOwnerPoolName ci' = OriginOwnerPoolName ci"
  using assms
proof (induction calls arbitrary: mc ci)
  case Nil
  then show ?case by simp
next
  case (Cons call calls)
  obtain p c pod info where call: "call = (p, c, pod, info)"
    by (cases call) auto
  from updateContainerInfo_origin [OF Cons.prems, of qosConf p c pod info]
  obtain ci1 where
    "GetContainerInfo (fst (updateContainerInfo qosConf mc p c pod info)) podUID containerName = Some ci1"
    and eq: "OriginOwnerPoolName ci1 = OriginOwnerPoolName ci"
    by blast
  from Cons.IH [OF this(1)] eq Cons.prems(2) show ?case
    by (simp add: call)
qed

theorem OriginOwnerPoolName_immutable_witness:
  "GetContainerInfo exampleCache ''pod1'' ''main'' = Some exampleContainer
   \<and> OriginOwnerPoolName exampleContainer \<noteq> ''''
   \<and> map_option OriginOwnerPoolName
        (GetContainerInfo
           (fold (\<lambda>(p, c, pod, info) mc. fst (updateContainerInfo exampleQosConf mc p c pod info))
              exampleCalls exampleCache)
           ''pod1'' ''main'') = Some ''batch''"
proof -
  have h1: "GetContainerInfo exampleCache ''pod1'' ''main'' = Some exampleContainer"
    by (simp add: GetContainerInfo_def exampleCache_def)
  have h2: "OriginOwnerPoolName exampleContainer \<noteq> ''''"
    by (simp add: exampleContainer_def)
  have h3: "OriginOwnerPoolName exampleContainer = ''batch''"
    by (simp add: exampleContainer_def)
  from OriginOwnerPoolName_immutable [OF h1 h2, of exampleQosConf exampleCalls] h1 h2 h3
  show ?thesis by auto
qed

subsection \<open>Containers of a pool that was not assembled\<close>

text \<open>
  C8. For a container of shared or reclaimed QoS level whose published owner-pool name is
  empty, or names no entry of the response under assembly, \<open>assemblePodEntries\<close> returns no
  error and the state it was given: nothing is added for the container. (The caller goes on
  to the next container whatever is returned.)
\<close>

theorem assemblePodEntries_skips_unknown_pool:
  assumes "QoSLevel ci = PodAnnotationQoSLevelSharedCores
           \<or> QoSLevel ci = PodAnnotationQoSLevelReclaimedCores"
    and "publishedOwnerPoolName ci = ''''
         \<or> map_of (calculationEntriesMap st) (publishedOwnerPoolName ci) = None"
  shows "assemblePodEntries st podUID ci = (st, None)"
  using assms by (auto simp add: assemblePodEntries_def Let_def)

theorem assemblePodEntries_skips_unknown_pool_witness:
  "QoSLevel exampleShared = PodAnnotationQoSLevelSharedCores
   \<and> publishedOwnerPoolName exampleShared = ''share''
   \<and> map_of (calculationEntriesMap NewBlockSet) ''share'' = None
   \<and> assemblePodEntries NewBlockSet ''pod2'' exampleShared = (NewBlockSet, None)"
proof -
  have h1: "QoSLevel exampleShared = PodAnnotationQoSLevelSharedCores"
    by (simp add: exampleShared_def PodAnnotationQoSLevelSharedCores_def)
  have h2: "publishedOwnerPoolName exampleShared = ''share''"
    by (simp add: exampleShared_def publishedOwnerPoolName_def)
  have h3: "map_of (calculationEntriesMap NewBlockSet) ''share'' = None"
    by (simp add: NewBlockSet_def)
  from assemblePodEntries_skips_unknown_pool [of exampleShared NewBlockSet "''pod2''"] h1 h2 h3
  show ?thesis by simp
qed

subsection \<open>The single-flight flag\<close>

lemma listAndWatchLoop_exits:
  "ContextDone \<in> set events \<or> StopCh \<in> set events \<Longrightarrow>
   listAndWatchLoop getPod qosConf events cs \<noteq> None"
proof (induction events arbitrary: cs)
  case Nil
  then show ?case by simp
next
  case (Cons e events)
  then show ?case by (cases e) auto
qed

lemma getAndSyncCheckpoint_flag:
  "hasListAndWatchLoop (getAndSyncCheckpoint getPod qosConf resp safeTime cs) = hasListAndWatchLoop cs"
  by (simp add: getAndSyncCheckpoint_def split: option.split)

lemma listAndWatchLoopStates_nonempty: "listAndWatchLoopStates getPod qosConf events cs \<noteq> []"
  by (induction getPod qosConf events cs rule: listAndWatchLoopStates.induct) simp_all

lemma listAndWatchLoopStates_flag:
  "cs' \<in> set (listAndWatchLoopStates getPod qosConf events cs) \<Longrightarrow>
   hasListAndWatchLoop cs' = hasListAndWatchLoop cs"
  by (induction getPod qosConf events cs rule: listAndWatchLoopStates.induct)
    (auto simp add: getAndSyncCheckpoint_flag)

lemma listAndWatchLoop_last:
  "listAndWatchLoop getPod qosConf events cs = Some cs' \<Longrightarrow>
   cs' = last (listAndWatchLoopStates getPod qosConf events cs)"
  by (induction getPod qosConf events cs rule: listAndWatchLoopStates.induct)
    (simp_all add: listAndWatchLoopStates_nonempty)

lemma ListAndWatch_refuses:
  "hasListAndWatchLoop cs \<Longrightarrow>
   ListAndWatch getPod qosConf clientOk events cs = Some (cs, Some AnotherLoopRunning)"
proof -
  assume a: "hasListAndWatchLoop cs"
  then have "cs\<lparr>hasListAndWatchLoop := True\<rparr> = cs" by simp
  with a show ?thesis by (simp add: ListAndWatch_def Let_def)
qed

lemma ListAndWatchStates_flag:
  "cs' \<in> set (ListAndWatchStates getPod qosConf clientOk events cs) \<Longrightarrow> hasListAndWatchLoop cs'"
  by (auto simp add: ListAndWatchStates_def Let_def split: if_splits
      dest: listAndWatchLoopStates_flag)

text \<open>
  C9. With the flag set, \<open>ListAndWatch\<close> returns the error "another loop is running" at
  once and the server is as before: cache unchanged, flag still set, no event consumed.
  A call passes through at least one state after its \<^verbatim>\<open>Swap(true)\<close>; in each of them,
  up to its return, the flag is set, so that any other call made then is refused in that
  way.  A call that started with the flag clear ends, when it returns, with or without
  error, in the last of these states with the flag cleared; and it does return when the
  client cannot be created or when the events bring a cancelled context or a stop.
\<close>

theorem ListAndWatch_single_flight:
  "(hasListAndWatchLoop cs \<longrightarrow>
      ListAndWatch getPod qosConf clientOk events cs = Some (cs, Some AnotherLoopRunning))
   \<and> ListAndWatchStates getPod qosConf clientOk events cs \<noteq> []
   \<and> (\<forall>cs' \<in> set (ListAndWatchStates getPod qosConf clientOk events cs).
        hasListAndWatchLoop cs'
        \<and> ListAndWatch getPod' qosConf' clientOk' events' cs' = Some (cs', Some AnotherLoopRunning))
   \<and> (\<not> hasListAndWatchLoop cs \<longrightarrow>
        (\<forall>cs' err. ListAndWatch getPod qosConf clientOk events cs = Some (cs', err)
           \<longrightarrow> cs' = (last (ListAndWatchStates getPod qosConf clientOk events cs))
                        \<lparr>hasListAndWatchLoop := False\<rparr>
               \<and> \<not> hasListAndWatchLoop cs'))
   \<and> (\<not> hasListAndWatchLoop cs \<and> (\<not> clientOk \<or> ContextDone \<in> set events \<or> StopCh \<in> set events)
        \<longrightarrow> ListAndWatch getPod qosConf clientOk events cs \<noteq> None)"
proof (intro conjI impI allI ballI)
  assume "hasListAndWatchLoop cs"
  then show "ListAndWatch getPod qosConf clientOk events cs = Some (cs, Some AnotherLoopRunning)"
    by (rule ListAndWatch_refuses)
next
  show "ListAndWatchStates getPod qosConf clientOk events cs \<noteq> []"
    by (simp add: ListAndWatchStates_def Let_def listAndWatchLoopStates_nonempty)
next
  fix cs' assume "cs' \<in> set (ListAndWatchStates getPod qosConf clientOk events cs)"
  then show "hasListAndWatchLoop cs'" by (rule ListAndWatchStates_flag)
next
  fix cs' assume "cs' \<in> set (ListAndWatchStates getPod qosConf clientOk events cs)"
  then have "hasListAndWatchLoop cs'" by (rule ListAndWatchStates_flag)
  then show "ListAndWatch getPod' qosConf' clientOk' events' cs' = Some (cs', Some AnotherLoopRunning)"
    by (rule ListAndWatch_refuses)
next
  fix cs' err
  assume "\<not> hasListAndWatchLoop cs"
    and "ListAndWatch getPod qosConf clientOk events cs = Some (cs', err)"
  then show "cs' = (last (ListAndWatchStates getPod qosConf clientOk events cs))
                        \<lparr>hasListAndWatchLoop := False\<rparr>"
    by (auto simp add: ListAndWatch_def ListAndWatchStates_def Let_def
        split: if_splits option.splits dest: listAndWatchLoop_last)
next
  fix cs' err
  assume "\<not> hasListAndWatchLoop cs"
    and "ListAndWatch getPod qosConf clientOk events cs = Some (cs', err)"
  then show "\<not> hasListAndWatchLoop cs'"
    by (auto simp add: ListAndWatch_def Let_def split: if_splits option.splits)
next
  assume a: "\<not> hasListAndWatchLoop cs
             \<and> (\<not> clientOk \<or> ContextDone \<in> set events \<or> StopCh \<in> set events)"
  show "ListAndWatch getPod qosConf clientOk events cs \<noteq> None"
  proof (cases clientOk)
    case False
    then show ?thesis using a by (simp add: ListAndWatch_def Let_def)
  next
    case True
    with a have "ContextDone \<in> set events \<or> StopCh \<in> set events" by simp
    from listAndWatchLoop_exits [OF this]
    show ?thesis using a True by (auto simp add: ListAndWatch_def Let_def split: option.split)
  qed
qed

theorem ListAndWatch_single_flight_witness:
  "hasListAndWatchLoop runningServer
   \<and> ListAndWatch exampleGetPod exampleQosConf True exampleEvents runningServer
       = Some (runningServer, Some AnotherLoopRunning)
   \<and> \<not> hasListAndWatchLoop idleServer
   \<and> StopCh \<in> set exampleEvents
   \<and> length (ListAndWatchStates exampleGetPod exampleQosConf True exampleEvents idleServer) = 3
   \<and> hasListAndWatchLoop
       (last (ListAndWatchStates exampleGetPod exampleQosConf True exampleEvents idleServer))
   \<and> ListAndWatch exampleGetPod exampleQosConf True [StopCh]
         (last (ListAndWatchStates exampleGetPod exampleQosConf True exampleEvents idleServer))
       = Some (last (ListAndWatchStates exampleGetPod exampleQosConf True exampleEvents idleServer),
               Some AnotherLoopRunning)
   \<and> (\<exists>cs' err. ListAndWatch exampleGetPod exampleQosConf True exampleEvents idleServer
                   = Some (cs', err) \<and> \<not> hasListAndWatchLoop cs')"
proof -
  let ?states = "ListAndWatchStates exampleGetPod exampleQosConf True exampleEvents idleServer"
  have h1: "hasListAndWatchLoop runningServer"
    by (simp add: runningServer_def)
  have h2: "\<not> hasListAndWatchLoop idleServer"
    by (simp add: idleServer_def)
  have h3: "StopCh \<in> set exampleEvents"
    by (simp add: exampleEvents_def)
  have len: "length ?states = 3"
    by (simp add: ListAndWatchStates_def Let_def idleServer_def exampleEvents_def)
  note a = ListAndWatch_single_flight [of runningServer exampleGetPod exampleQosConf True
      exampleEvents exampleGetPod exampleQosConf True "[StopCh]"]
  note b = ListAndWatch_single_flight [of idleServer exampleGetPod exampleQosConf True
      exampleEvents exampleGetPod exampleQosConf True "[StopCh]"]
  from b have "?states \<noteq> []" by simp
  then have "last ?states \<in> set ?states" by (rule last_in_set)
  with b have s: "hasListAndWatchLoop (last ?states)"
    "ListAndWatch exampleGetPod exampleQosConf True [StopCh] (last ?states)
       = Some (last ?states, Some AnotherLoopRunning)"
    by blast+
  from b h2 h3 obtain r where
    r: "ListAndWatch exampleGetPod exampleQosConf True exampleEvents idleServer = Some r"
    by auto
  with b h2 have "\<not> hasListAndWatchLoop (fst r)"
    by (cases r) auto
  with r have "\<exists>cs' err. ListAndWatch exampleGetPod exampleQosConf True exampleEvents idleServer
                   = Some (cs', err) \<and> \<not> hasListAndWatchLoop cs'"
    by (cases r) auto
  with a h1 h2 h3 len s show ?thesis by blast
qed

subsection \<open>The pool pass\<close>

lemma syncPools_Nil: "syncPools [] x = x"
  by (simp add: syncPools_def)

lemma syncPools_Cons:
  "syncPools ((n, e) # resp) (s, mc) =
     syncPools resp (case map_of e FakedContainerName of
                       Some poolInfo \<Rightarrow> (insert n s, fst (updatePoolInfo mc n poolInfo))
                     | None \<Rightarrow> (s, mc))"
  by (simp add: syncPools_def)

lemma updatePoolInfo_other:
  "n \<noteq> poolName \<Longrightarrow>
   map_of (poolInfos (fst (updatePoolInfo mc n info))) poolName = map_of (poolInfos mc) poolName"
  by (simp add: updatePoolInfo_def SetPoolInfo_def Let_def AList.update_conv')

lemma updatePoolInfo_same:
  "\<exists>pi. map_of (poolInfos (fst (updatePoolInfo mc n info))) n = Some pi
      \<and> pi_TopologyAwareAssignments pi = TransformCPUAssignmentFormat (ai_TopologyAwareAssignments info)"
  by (simp add: updatePoolInfo_def SetPoolInfo_def Let_def AList.update_conv' split: option.split)

lemma updatePoolInfo_keys:
  "fst ` set (poolInfos (fst (updatePoolInfo mc n info))) = insert n (fst ` set (poolInfos mc))"
  by (simp add: updatePoolInfo_def SetPoolInfo_def Let_def AList.dom_update)

lemma syncPools_pool_other:
  "poolName \<notin> fst ` set resp \<Longrightarrow>
   map_of (poolInfos (snd (syncPools resp (s, mc)))) poolName = map_of (poolInfos mc) poolName"
proof (induction resp arbitrary: s mc)
  case Nil
  show ?case by (simp add: syncPools_Nil)
next
  case (Cons a resp)
  obtain n e where a: "a = (n, e)" by (cases a)
  from Cons.prems a have ne: "n \<noteq> poolName" and rest: "poolName \<notin> fst ` set resp" by auto
  show ?case
    by (cases "map_of e FakedContainerName")
       (simp_all add: a syncPools_Cons Cons.IH [OF rest] updatePoolInfo_other [OF ne])
qed

lemma syncPools_pool:
  assumes "distinct (map fst resp)" and "map_of resp poolName = Some e"
    and "map_of e FakedContainerName = Some poolInfo"
  shows "\<exists>pi. map_of (poolInfos (snd (syncPools resp (s, mc)))) poolName = Some pi
      \<and> pi_TopologyAwareAssignments pi =
          TransformCPUAssignmentFormat (ai_TopologyAwareAssignments poolInfo)"
  using assms(1,2)
proof (induction resp arbitrary: s mc)
  case Nil
  then show ?case by simp
next
  case (Cons a resp)
  obtain n e' where a: "a = (n, e')" by (cases a)
  show ?case
  proof (cases "n = poolName")
    case True
    with Cons.prems a have e': "e' = e" and rest: "poolName \<notin> fst ` set resp" by auto
    show ?thesis
      using updatePoolInfo_same [of mc poolName poolInfo]
      by (simp add: a True e' syncPools_Cons assms(3) syncPools_pool_other [OF rest])
  next
    case False
    with Cons.prems a have d: "distinct (map fst resp)" and m: "map_of resp poolName = Some e"
      by auto
    show ?thesis
      by (cases "map_of e' FakedContainerName") (simp_all add: a syncPools_Cons Cons.IH [OF d m])
  qed
qed

lemma syncPools_living:
  "fst (syncPools resp (s, mc)) = s \<union> poolRows resp"
proof (induction resp arbitrary: s mc)
  case Nil
  show ?case by (simp add: syncPools_Nil poolRows_def)
next
  case (Cons a resp)
  obtain n e where a: "a = (n, e)" by (cases a)
  show ?case
    by (cases "map_of e FakedContainerName")
       (auto simp add: a syncPools_Cons Cons.IH poolRows_def)
qed

lemma syncPools_keys:
  "fst ` set (poolInfos (snd (syncPools resp (s, mc)))) = fst ` set (poolInfos mc) \<union> poolRows resp"
proof (induction resp arbitrary: s mc)
  case Nil
  show ?case by (simp add: syncPools_Nil poolRows_def)
next
  case (Cons a resp)
  obtain n e where a: "a = (n, e)" by (cases a)
  show ?case
    by (cases "map_of e FakedContainerName")
       (auto simp add: a syncPools_Cons Cons.IH poolRows_def updatePoolInfo_keys)
qed

subsection \<open>The container pass\<close>

lemma update_map_same:
  "map_of al k = Some v0 \<Longrightarrow> g v = g v0 \<Longrightarrow>
   map (\<lambda>(k, v). (k, g v)) (AList.update k v al) = map (\<lambda>(k, v). (k, g v)) al"
  by (induction al) (auto split: if_splits)

lemma identity_updates:
  "identity (ci\<lparr>RampUp := a\<rparr>) = identity ci"
  "identity (ci\<lparr>TopologyAwareAssignments := b\<rparr>) = identity ci"
  "identity (ci\<lparr>OriginalTopologyAwareAssignments := b\<rparr>) = identity ci"
  "identity (ci\<lparr>OwnerPoolName := n\<rparr>) = identity ci"
  "identity (ci\<lparr>OriginOwnerPoolName := n\<rparr>) = identity ci"
  "identity (ci\<lparr>QoSLevel := n\<rparr>) = identity ci"
  by (simp_all add: identity_def)

lemma updateContainerInfo_identity:
  "map (\<lambda>(k, ci). (k, identity ci)) (containerInfos (fst (updateContainerInfo qosConf mc p c pod info))) =
     map (\<lambda>(k, ci). (k, identity ci)) (containerInfos mc)"
proof (cases "GetContainerInfo mc p c")
  case None
  then show ?thesis by (simp add: updateContainerInfo_def)
next
  case (Some ci)
  then have k: "\<And>v. identity v = identity ci \<Longrightarrow>
      map (\<lambda>(k, ci). (k, identity ci)) (AList.update (p, c) v (containerInfos mc)) =
      map (\<lambda>(k, ci). (k, identity ci)) (containerInfos mc)"
    by (simp add: GetContainerInfo_def update_map_same)
  show ?thesis
    by (simp add: updateContainerInfo_def Some Let_def SetContainerInfo_def k identity_updates
        split: option.split)
qed

lemma fold_updateContainerInfo_identity:
  "map (\<lambda>(k, ci). (k, identity ci)) (containerInfos (fold (\<lambda>(containerName, info) mc.
        fst (updateContainerInfo qosConf mc p containerName pod info)) entry mc)) =
     map (\<lambda>(k, ci). (k, identity ci)) (containerInfos mc)"
proof (induction entry arbitrary: mc)
  case Nil
  show ?case by simp
next
  case (Cons e entry)
  show ?case by (cases e) (simp add: Cons.IH updateContainerInfo_identity)
qed

lemma syncContainers_identity:
  "map (\<lambda>(k, ci). (k, identity ci)) (containerInfos (syncContainers getPod qosConf resp mc)) =
     map (\<lambda>(k, ci). (k, identity ci)) (containerInfos mc)"
  unfolding syncContainers_def
proof (induction resp arbitrary: mc)
  case Nil
  show ?case by simp
next
  case (Cons e resp)
  show ?case
    by (cases e) (simp add: Cons.IH fold_updateContainerInfo_identity split: option.split)
qed

lemma updateContainerInfo_other:
  "(p', c') \<noteq> k \<Longrightarrow>
   map_of (containerInfos (fst (updateContainerInfo qosConf mc p' c' pod info))) k =
     map_of (containerInfos mc) k"
  by (simp add: updateContainerInfo_def SetContainerInfo_def Let_def AList.update_conv'
      split: option.split)

lemma updateContainerInfo_hit:
  assumes "GetContainerInfo mc p c = Some ci" and "qosConf pod = Some q"
    and "q \<noteq> PodAnnotationQoSLevelDedicatedCores" and "ai_OwnerPoolName info \<noteq> ''''"
    and "GetPoolInfo mc (ai_OwnerPoolName info) = Some pi"
  shows "\<exists>ci'. map_of (containerInfos (fst (updateContainerInfo qosConf mc p c pod info))) (p, c) = Some ci'
      \<and> TopologyAwareAssignments ci' = pi_TopologyAwareAssignments pi"
  using assms
  by (simp add: updateContainerInfo_def SetContainerInfo_def Let_def AList.update_conv')

lemma fold_updateContainerInfo_other:
  "c \<notin> fst ` set entry \<Longrightarrow>
   map_of (containerInfos (fold (\<lambda>(containerName, info) mc.
        fst (updateContainerInfo qosConf mc p containerName pod info)) entry mc)) (p, c) =
     map_of (containerInfos mc) (p, c)"
proof (induction entry arbitrary: mc)
  case Nil
  show ?case by simp
next
  case (Cons a entry)
  obtain c' info where a: "a = (c', info)" by (cases a)
  from Cons.prems a have ne: "(p, c') \<noteq> (p, c)" and rest: "c \<notin> fst ` set entry" by auto
  show ?case
    by (simp add: a Cons.IH [OF rest] updateContainerInfo_other [OF ne])
qed

lemma fold_updateContainerInfo_otherpod:
  "p' \<noteq> p \<Longrightarrow>
   map_of (containerInfos (fold (\<lambda>(containerName, info) mc.
        fst (updateContainerInfo qosConf mc p' containerName pod info)) entry mc)) (p, c) =
     map_of (containerInfos mc) (p, c)"
proof (induction entry arbitrary: mc)
  case Nil
  show ?case by simp
next
  case (Cons a entry)
  obtain c' info where a: "a = (c', info)" by (cases a)
  from Cons.prems have ne: "(p', c') \<noteq> (p, c)" by auto
  show ?case
    by (simp add: a Cons.IH [OF Cons.prems] updateContainerInfo_other [OF ne])
qed

lemma fold_updateContainerInfo_hit:
  assumes "distinct (map fst entry)" and "map_of entry c = Some info"
    and "qosConf pod = Some q"
    and "q \<noteq> PodAnnotationQoSLevelDedicatedCores" and "ai_OwnerPoolName info \<noteq> ''''"
    and "GetPoolInfo mc (ai_OwnerPoolName info) = Some pi"
    and "GetContainerInfo mc p c \<noteq> None"
  shows "\<exists>ci'. map_of (containerInfos (fold (\<lambda>(containerName, info) mc.
        fst (updateContainerInfo qosConf mc p containerName pod info)) entry mc)) (p, c) = Some ci'
      \<and> TopologyAwareAssignments ci' = pi_TopologyAwareAssignments pi"
  using assms(1,2,6,7)
proof (induction entry arbitrary: mc)
  case Nil
  then show ?case by simp
next
  case (Cons a entry)
  obtain c' info' where a: "a = (c', info')" by (cases a)
  let ?mc = "fst (updateContainerInfo qosConf mc p c' pod info')"
  have pool: "GetPoolInfo ?mc (ai_OwnerPoolName info) = Some pi"
    using Cons.prems(3) by (simp add: GetPoolInfo_def updateContainerInfo_pools)
  show ?case
  proof (cases "c' = c")
    case True
    with Cons.prems a have i: "info' = info" and rest: "c \<notin> fst ` set entry" by auto
    from Cons.prems(4) obtain ci where "GetContainerInfo mc p c = Some ci" by auto
    from updateContainerInfo_hit
      [where qosConf = qosConf and pod = pod and info = info, OF this assms(3,4,5) Cons.prems(3)]
    show ?thesis
      by (simp add: a True i fold_updateContainerInfo_other [OF rest])
  next
    case False
    with Cons.prems a have d: "distinct (map fst entry)" and m: "map_of entry c = Some info"
      by auto
    from False have ne: "(p, c') \<noteq> (p, c)" by simp
    have ex: "GetContainerInfo ?mc p c \<noteq> None"
      using Cons.prems(4) by (simp add: GetContainerInfo_def updateContainerInfo_other [OF ne])
    from Cons.IH [OF d m pool ex] show ?thesis by (simp add: a)
  qed
qed

lemma syncContainers_Nil: "syncContainers getPod qosConf [] mc = mc"
  by (simp add: syncContainers_def)

lemma syncContainers_Cons:
  "syncContainers getPod qosConf ((n, e) # resp) mc =
     syncContainers getPod qosConf resp
       (case map_of e FakedContainerName of
          Some x \<Rightarrow> mc
        | None \<Rightarrow>
            (case getPod n of
               None \<Rightarrow> mc
             | Some pod \<Rightarrow>
                 fold (\<lambda>(containerName, info) mc.
                         fst (updateContainerInfo qosConf mc n containerName pod info)) e mc))"
  by (simp add: syncContainers_def)

lemma syncContainers_other:
  "p \<notin> fst ` set resp \<Longrightarrow>
   map_of (containerInfos (syncContainers getPod qosConf resp mc)) (p, c) =
     map_of (containerInfos mc) (p, c)"
proof (induction resp arbitrary: mc)
  case Nil
  show ?case by (simp add: syncContainers_Nil)
next
  case (Cons a resp)
  obtain n e where a: "a = (n, e)" by (cases a)
  from Cons.prems a have ne: "n \<noteq> p" and rest: "p \<notin> fst ` set resp" by auto
  show ?case
    by (simp add: a syncContainers_Cons Cons.IH [OF rest] fold_updateContainerInfo_otherpod [OF ne]
        split: option.split)
qed

lemma syncContainers_hit:
  assumes "distinct (map fst resp)" and "map_of resp p = Some entry"
    and "map_of entry FakedContainerName = None" and "getPod p = Some pod"
    and "distinct (map fst entry)" and "map_of entry c = Some info"
    and "qosConf pod = Some q"
    and "q \<noteq> PodAnnotationQoSLevelDedicatedCores" and "ai_OwnerPoolName info \<noteq> ''''"
    and "GetPoolInfo mc (ai_OwnerPoolName info) = Some pi"
    and "GetContainerInfo mc p c \<noteq> None"
  shows "\<exists>ci'. map_of (containerInfos (syncContainers getPod qosConf resp mc)) (p, c) = Some ci'
      \<and> TopologyAwareAssignments ci' = pi_TopologyAwareAssignments pi"
  using assms(1,2,10,11)
proof (induction resp arbitrary: mc)
  case Nil
  then show ?case by simp
next
  case (Cons a resp)
  obtain n e where a: "a = (n, e)" by (cases a)
  show ?case
  proof (cases "n = p")
    case True
    with Cons.prems a have e: "e = entry" and rest: "p \<notin> fst ` set resp" by auto
    from fold_updateContainerInfo_hit
      [where qosConf = qosConf and pod = pod and p = p,
        OF assms(5,6,7,8,9) Cons.prems(3) Cons.prems(4)]
    show ?thesis
      by (simp add: a True e syncContainers_Cons assms(3,4) syncContainers_other [OF rest])
  next
    case False
    with Cons.prems a have d: "distinct (map fst resp)" and m: "map_of resp p = Some entry"
      by auto
    let ?mc = "case map_of e FakedContainerName of
          Some x \<Rightarrow> mc
        | None \<Rightarrow>
            (case getPod n of
               None \<Rightarrow> mc
             | Some pod \<Rightarrow>
                 fold (\<lambda>(containerName, info) mc.
                         fst (updateContainerInfo qosConf mc n containerName pod info)) e mc)"
    have pool: "GetPoolInfo ?mc (ai_OwnerPoolName info) = Some pi"
      using Cons.prems(3)
      by (simp add: GetPoolInfo_def fold_updateContainerInfo_pools split: option.split)
    have ex: "GetContainerInfo ?mc p c \<noteq> None"
      using Cons.prems(4)
      by (simp add: GetContainerInfo_def fold_updateContainerInfo_otherpod [OF False]
          split: option.split)
    from Cons.IH [OF d m pool ex] show ?thesis by (simp add: a syncContainers_Cons)
  qed
qed

lemma map_of_filter_Some:
  "map_of xs k = Some v \<Longrightarrow> P (k, v) \<Longrightarrow> map_of (filter P xs) k = Some v"
  by (induction xs) (auto split: if_splits)

lemma map_of_identity:
  "map_of (map (\<lambda>(k, ci). (k, identity ci)) xs) k = map_option identity (map_of xs k)"
  by (induction xs) auto

lemma ingest_identity:
  assumes "map_of (containerInfos mc) k = Some ci"
    and "map_of (containerInfos (syncContainers getPod qosConf resp (snd (syncPools resp (s, mc))))) k
           = Some ci'"
  shows "identity ci' = identity ci"
proof -
  have "map (\<lambda>(k, ci). (k, identity ci))
          (containerInfos (syncContainers getPod qosConf resp (snd (syncPools resp (s, mc))))) =
        map (\<lambda>(k, ci). (k, identity ci)) (containerInfos mc)"
    by (simp add: syncContainers_identity syncPools_containers)
  then have "map_option identity (map_of
          (containerInfos (syncContainers getPod qosConf resp (snd (syncPools resp (s, mc))))) k) =
        map_option identity (map_of (containerInfos mc) k)"
    by (simp only: map_of_identity [symmetric])
  with assms show ?thesis by simp
qed

lemma notInCheckpoint_identity:
  "identity ci' = identity ci \<Longrightarrow> notInCheckpoint resp ci' = notInCheckpoint resp ci"
  by (auto simp add: notInCheckpoint_def identity_def split: option.splits)

subsection \<open>Garbage collection\<close>

lemma map_of_filter_distinct_None:
  "distinct (map fst xs) \<Longrightarrow> map_of xs k = Some v \<Longrightarrow> \<not> P (k, v) \<Longrightarrow>
   map_of (filter P xs) k = None"
proof (induction xs)
  case Nil
  then show ?case by simp
next
  case (Cons a xs)
  obtain k' v' where a: "a = (k', v')" by (cases a)
  show ?case
  proof (cases "k' = k")
    case True
    with Cons.prems a have "v' = v" and "k \<notin> fst ` set xs" by auto
    then have "map_of xs k = None" by (simp add: map_of_eq_None_iff)
    then have "map_of (filter P xs) k = None" by (rule map_of_filter_None)
    with Cons.prems(3) True \<open>v' = v\<close> show ?thesis by (simp add: a)
  next
    case False
    with Cons.prems a have "map_of (filter P xs) k = None"
      by (intro Cons.IH) auto
    with False show ?thesis by (simp add: a)
  qed
qed

lemma map_of_filter_key:
  "map_of (filter (\<lambda>(k, v). Q k) xs) k = (if Q k then map_of xs k else None)"
  by (induction xs) auto

lemma fold_insert_image:
  "fold (\<lambda>((podUID, containerName), ci). insert (f ci)) xs s = s \<union> f ` snd ` set xs"
  by (induction xs arbitrary: s) auto

lemma RangeContainer_insert:
  "RangeContainer (\<lambda>podUID containerName ci s. insert (f ci) s) mc s =
     s \<union> f ` snd ` set (containerInfos mc)"
  by (simp add: RangeContainer_def fold_insert_image)

lemma syncCheckpoint_pools:
  "poolInfos (syncCheckpoint getPod qosConf mc resp safeTime) =
     filter (\<lambda>(n, pi). n \<in> poolRows resp \<union>
                OriginOwnerPoolName ` snd ` set (containerInfos (syncCheckpoint getPod qosConf mc resp safeTime)))
       (poolInfos (snd (syncPools resp ({}, mc))))"
proof -
  obtain l mc1 where sp: "syncPools resp ({}, mc) = (l, mc1)" by (cases "syncPools resp ({}, mc)")
  have l: "l = poolRows resp"
    using syncPools_living [of resp "{}" mc] by (simp add: sp)
  show ?thesis
    by (simp add: syncCheckpoint_def sp l Let_def GCPoolEntries_def RangeContainer_insert
        syncContainers_pools RangeAndDeleteContainer_def)
qed

lemma ingest_lookup:
  assumes "map_of (containerInfos mc) k = Some ci"
  shows "\<exists>ci'. map_of (containerInfos (syncContainers getPod qosConf resp (snd (syncPools resp (s, mc))))) k
           = Some ci' \<and> identity ci' = identity ci"
proof -
  let ?ys = "containerInfos (syncContainers getPod qosConf resp (snd (syncPools resp (s, mc))))"
  have "k \<in> fst ` set (containerInfos mc)"
    using assms by (rule map_of_Some_key)
  then have "k \<in> set (map fst ?ys)"
    by (simp add: syncContainers_keys syncPools_containers)
  then obtain ci' where c: "map_of ?ys k = Some ci'"
    by (cases "map_of ?ys k") (auto simp add: map_of_eq_None_iff)
  from ingest_identity [OF assms c] c show ?thesis by blast
qed

subsection \<open>Pools before containers\<close>

text \<open>
  C4. \<open>syncCheckpoint\<close> runs the pool pass over the whole checkpoint before the container
  pass. So, wherever the two rows stand in the checkpoint: when the checkpoint has the pool
  row of \<open>poolName\<close> and the row of a cached container of a pod that is found, of a QoS
  level other than dedicated, with \<open>poolName\<close> (not empty) as its owner pool, then after
  the call the container's topology-aware assignment is the one of that pool row, as the
  pool pass has just stored it.
\<close>

theorem pools_ingested_before_containers:
  assumes "distinct (map fst resp)"
    and "map_of resp poolName = Some poolEntry"
    and "map_of poolEntry FakedContainerName = Some poolInfo"
    and "map_of resp podUID = Some entry"
    and "map_of entry FakedContainerName = None"
    and "distinct (map fst entry)"
    and "map_of entry containerName = Some info"
    and "ai_OwnerPoolName info = poolName" and "poolName \<noteq> ''''"
    and "getPod podUID = Some pod" and "qosConf pod = Some qosLevel"
    and "qosLevel \<noteq> PodAnnotationQoSLevelDedicatedCores"
    and "GetContainerInfo mc podUID containerName = Some ci"
    and "PodUID ci = podUID" and "ContainerName ci = containerName"
  shows "\<exists>ci'. GetContainerInfo (syncCheckpoint getPod qosConf mc resp safeTime) podUID containerName
               = Some ci'
           \<and> TopologyAwareAssignments ci' =
               TransformCPUAssignmentFormat (ai_TopologyAwareAssignments poolInfo)"
proof -
  let ?mc1 = "snd (syncPools resp ({}, mc))"
  let ?mc2 = "syncContainers getPod qosConf resp ?mc1"
  from syncPools_pool [OF assms(1,2,3), of "{}" mc]
  obtain pi where pi: "GetPoolInfo ?mc1 poolName = Some pi"
    and taa: "pi_TopologyAwareAssignments pi =
               TransformCPUAssignmentFormat (ai_TopologyAwareAssignments poolInfo)"
    by (auto simp add: GetPoolInfo_def)
  have ex: "GetContainerInfo ?mc1 podUID containerName \<noteq> None"
    using assms(13) by (simp add: GetContainerInfo_def syncPools_containers)
  from assms(8,9) have owner: "ai_OwnerPoolName info \<noteq> ''''" by simp
  from pi assms(8) have pool: "GetPoolInfo ?mc1 (ai_OwnerPoolName info) = Some pi" by simp
  from syncContainers_hit
    [where getPod = getPod and qosConf = qosConf, OF assms(1,4,5,10,6,7,11,12) owner pool ex]
  obtain ci' where ci': "map_of (containerInfos ?mc2) (podUID, containerName) = Some ci'"
    and t: "TopologyAwareAssignments ci' = pi_TopologyAwareAssignments pi"
    by blast
  from assms(13) have "map_of (containerInfos mc) (podUID, containerName) = Some ci"
    by (simp add: GetContainerInfo_def)
  from ingest_identity [OF this ci'] have "identity ci' = identity ci" .
  then have "notInCheckpoint resp ci' = notInCheckpoint resp ci"
    by (rule notInCheckpoint_identity)
  moreover have "\<not> notInCheckpoint resp ci"
    using assms(4,7,14,15) by (simp add: notInCheckpoint_def)
  ultimately have keep: "\<not> notInCheckpoint resp ci'" by simp
  have "map_of (containerInfos (syncCheckpoint getPod qosConf mc resp safeTime))
          (podUID, containerName) = Some ci'"
    unfolding syncCheckpoint_containers
    by (rule map_of_filter_Some [OF ci']) (simp add: keep)
  with t taa show ?thesis by (simp add: GetContainerInfo_def)
qed

theorem pools_ingested_before_containers_witness:
  "map_of containerFirstCheckpoint ''share'' = Some [('''', poolRowInfo)]
   \<and> map_of containerFirstCheckpoint ''pod1'' = Some [(''main'', exampleInfo)]
   \<and> ai_OwnerPoolName exampleInfo = ''share''
   \<and> GetContainerInfo exampleCache ''pod1'' ''main'' = Some exampleContainer
   \<and> TopologyAwareAssignments exampleContainer = []
   \<and> map_option TopologyAwareAssignments
        (GetContainerInfo
           (syncCheckpoint exampleGetPod exampleQosConf exampleCache containerFirstCheckpoint 10)
           ''pod1'' ''main'') = Some [(0, {|0, 1, 2, 3|})]"
proof -
  have h1: "distinct (map fst containerFirstCheckpoint)"
    by (simp add: containerFirstCheckpoint_def)
  have h2: "map_of containerFirstCheckpoint ''share'' = Some [('''', poolRowInfo)]"
    by (simp add: containerFirstCheckpoint_def)
  have h3: "map_of [('''', poolRowInfo)] FakedContainerName = Some poolRowInfo"
    by (simp add: FakedContainerName_def)
  have h4: "map_of containerFirstCheckpoint ''pod1'' = Some [(''main'', exampleInfo)]"
    by (simp add: containerFirstCheckpoint_def)
  have h5: "map_of [(''main'', exampleInfo)] FakedContainerName = None"
    by (simp add: FakedContainerName_def)
  have h6: "distinct (map fst [(''main'', exampleInfo)])"
    by simp
  have h7: "map_of [(''main'', exampleInfo)] ''main'' = Some exampleInfo"
    by simp
  have h8: "ai_OwnerPoolName exampleInfo = ''share''"
    by (simp add: exampleInfo_def)
  have h9: "''share'' \<noteq> ''''"
    by simp
  have h10: "exampleGetPod ''pod1'' = Some ()"
    by (simp add: exampleGetPod_def)
  have h11: "exampleQosConf () = Some ''shared_cores''"
    by (simp add: exampleQosConf_def)
  have h12: "''shared_cores'' \<noteq> PodAnnotationQoSLevelDedicatedCores"
    by (simp add: PodAnnotationQoSLevelDedicatedCores_def)
  have h13: "GetContainerInfo exampleCache ''pod1'' ''main'' = Some exampleContainer"
    by (simp add: GetContainerInfo_def exampleCache_def)
  have h14: "PodUID exampleContainer = ''pod1''"
    by (simp add: exampleContainer_def)
  have h15: "ContainerName exampleContainer = ''main''"
    by (simp add: exampleContainer_def)
  have h16: "TopologyAwareAssignments exampleContainer = []"
    by (simp add: exampleContainer_def)
  have h17: "TransformCPUAssignmentFormat (ai_TopologyAwareAssignments poolRowInfo)
               = [(0, {|0, 1, 2, 3|})]"
    by (simp add: TransformCPUAssignmentFormat_def poolRowInfo_def)
  from pools_ingested_before_containers
    [where getPod = exampleGetPod and qosConf = exampleQosConf and safeTime = 10,
      OF h1 h2 h3 h4 h5 h6 h7 h8 h9 h10 h11 h12 h13 h14 h15]
    h2 h4 h8 h13 h16 h17
  show ?thesis by auto
qed

text \<open>
  C5. After \<open>syncCheckpoint\<close>, for a cache with one record per key:
  a container that was cached is gone exactly when its pod UID is absent from the checkpoint
  or its container sub-entry is missing, and the safe time is not before its timestamp;
  and a pool is in the cache exactly when the checkpoint has a pool row for it, or it was
  cached and is the origin owner pool of a container that survived. So a pool that a
  surviving container refers to as its origin survives though the checkpoint omits it, and
  every other pool the checkpoint omits is deleted.
\<close>

theorem gc_containers_then_pools:
  assumes "distinct (map fst (containerInfos mc))"
  shows "(\<forall>p c ci. GetContainerInfo mc p c = Some ci \<longrightarrow>
            (GetContainerInfo (syncCheckpoint getPod qosConf mc resp safeTime) p c = None
               \<longleftrightarrow> notInCheckpoint resp ci \<and> \<not> safeTime < Timestamp ci))
         \<and> (\<forall>n. GetPoolInfo (syncCheckpoint getPod qosConf mc resp safeTime) n \<noteq> None
               \<longleftrightarrow> n \<in> poolRows resp
                   \<or> (GetPoolInfo mc n \<noteq> None
                       \<and> (\<exists>p c ci. GetContainerInfo (syncCheckpoint getPod qosConf mc resp safeTime) p c
                                      = Some ci \<and> OriginOwnerPoolName ci = n)))"
proof (intro conjI allI impI)
  fix p c ci
  assume g: "GetContainerInfo mc p c = Some ci"
  let ?ys = "containerInfos (syncContainers getPod qosConf resp (snd (syncPools resp ({}, mc))))"
  let ?P = "\<lambda>(k, ci). \<not> (\<not> safeTime < Timestamp ci \<and> notInCheckpoint resp ci)"
  from g have "map_of (containerInfos mc) (p, c) = Some ci" by (simp add: GetContainerInfo_def)
  from ingest_lookup [OF this, of getPod qosConf resp "{}"]
  obtain ci' where c': "map_of ?ys (p, c) = Some ci'" and i: "identity ci' = identity ci"
    by blast
  from i have ts: "Timestamp ci' = Timestamp ci" by (simp add: identity_def)
  from i have nc: "notInCheckpoint resp ci' = notInCheckpoint resp ci"
    by (rule notInCheckpoint_identity)
  have d: "distinct (map fst ?ys)"
    using assms by (simp add: syncContainers_keys syncPools_containers)
  show "GetContainerInfo (syncCheckpoint getPod qosConf mc resp safeTime) p c = None
          \<longleftrightarrow> notInCheckpoint resp ci \<and> \<not> safeTime < Timestamp ci"
  proof (cases "notInCheckpoint resp ci \<and> \<not> safeTime < Timestamp ci")
    case True
    then have "\<not> ?P ((p, c), ci')" using ts nc by simp
    from map_of_filter_distinct_None [where P = ?P, OF d c' this] True show ?thesis
      by (simp add: GetContainerInfo_def syncCheckpoint_containers)
  next
    case False
    then have "?P ((p, c), ci')" using ts nc by auto
    from map_of_filter_Some [where P = ?P, OF c' this] False show ?thesis
      by (simp add: GetContainerInfo_def syncCheckpoint_containers)
  qed
next
  fix n
  let ?mc' = "syncCheckpoint getPod qosConf mc resp safeTime"
  have d: "distinct (map fst (containerInfos ?mc'))"
    using assms
    by (simp add: syncCheckpoint_containers distinct_map_filter syncContainers_keys
        syncPools_containers)
  have surv: "(\<exists>p c ci. GetContainerInfo ?mc' p c = Some ci \<and> OriginOwnerPoolName ci = n)
      \<longleftrightarrow> n \<in> OriginOwnerPoolName ` snd ` set (containerInfos ?mc')"
    using d by (force simp add: GetContainerInfo_def)
  have dom: "map_of (poolInfos (snd (syncPools resp ({}, mc)))) n \<noteq> None
      \<longleftrightarrow> GetPoolInfo mc n \<noteq> None \<or> n \<in> poolRows resp"
    using syncPools_keys [of resp "{}" mc]
    by (auto simp add: GetPoolInfo_def map_of_eq_None_iff)
  have "GetPoolInfo ?mc' n \<noteq> None \<longleftrightarrow>
      (n \<in> poolRows resp \<union> OriginOwnerPoolName ` snd ` set (containerInfos ?mc'))
      \<and> map_of (poolInfos (snd (syncPools resp ({}, mc)))) n \<noteq> None"
    by (simp add: GetPoolInfo_def syncCheckpoint_pools map_of_filter_key)
  with surv dom
  show "GetPoolInfo ?mc' n \<noteq> None
               \<longleftrightarrow> n \<in> poolRows resp
                   \<or> (GetPoolInfo mc n \<noteq> None
                       \<and> (\<exists>p c ci. GetContainerInfo ?mc' p c = Some ci \<and> OriginOwnerPoolName ci = n))"
    by blast
qed

theorem gc_containers_then_pools_witness:
  "distinct (map fst (containerInfos gcCache))
   \<and> GetContainerInfo gcCache ''pod9'' ''old'' = Some staleContainer
   \<and> notInCheckpoint exampleCheckpoint staleContainer
   \<and> \<not> 10 < Timestamp staleContainer
   \<and> GetContainerInfo (syncCheckpoint exampleGetPod exampleQosConf gcCache exampleCheckpoint 10)
        ''pod9'' ''old'' = None
   \<and> ''share'' \<in> poolRows exampleCheckpoint
   \<and> GetPoolInfo (syncCheckpoint exampleGetPod exampleQosConf gcCache exampleCheckpoint 10)
        ''share'' \<noteq> None"
proof -
  have h1: "distinct (map fst (containerInfos gcCache))"
    by (simp add: gcCache_def)
  have h2: "GetContainerInfo gcCache ''pod9'' ''old'' = Some staleContainer"
    by (simp add: GetContainerInfo_def gcCache_def)
  have h3: "notInCheckpoint exampleCheckpoint staleContainer"
    by (simp add: notInCheckpoint_def exampleCheckpoint_def staleContainer_def)
  have h4: "\<not> 10 < Timestamp staleContainer"
    by (simp add: staleContainer_def)
  have h5: "''share'' \<in> poolRows exampleCheckpoint"
    by (simp add: poolRows_def exampleCheckpoint_def FakedContainerName_def)
  from gc_containers_then_pools
    [where getPod = exampleGetPod and qosConf = exampleQosConf and resp = exampleCheckpoint
       and safeTime = 10, OF h1]
  have a: "GetContainerInfo (syncCheckpoint exampleGetPod exampleQosConf gcCache exampleCheckpoint 10)
        ''pod9'' ''old'' = None"
    using h2 h3 h4 by blast
  from gc_containers_then_pools
    [where getPod = exampleGetPod and qosConf = exampleQosConf and resp = exampleCheckpoint
       and safeTime = 10, OF h1]
  have b: "GetPoolInfo (syncCheckpoint exampleGetPod exampleQosConf gcCache exampleCheckpoint 10)
        ''share'' \<noteq> None"
    using h5 by blast
  from h1 h2 h3 h4 h5 a b show ?thesis by simp
qed

text \<open>
  The same run, computed: the stale container is gone, and of the pools the pool the
  checkpoint brings and the origin pool of the surviving container are there, the other is
  deleted.
\<close>

lemma gc_example:
  "map fst (containerInfos (syncCheckpoint exampleGetPod exampleQosConf gcCache exampleCheckpoint 10))
     = [(''pod1'', ''main'')]
   \<and> map fst (poolInfos (syncCheckpoint exampleGetPod exampleQosConf gcCache exampleCheckpoint 10))
     = [''batch'', ''share'']"
  by code_simp

subsection \<open>Blocks and joins\<close>

lemma NewUUID_inj: "NewUUID m = NewUUID n \<longleftrightarrow> m = n"
proof
  assume "NewUUID m = NewUUID n"
  then have "length (NewUUID m) = length (NewUUID n)" by simp
  then show "m = n" by (simp add: NewUUID_def)
qed simp

lemma NewUUID_nonempty: "NewUUID n \<noteq> ''''"
  by (simp add: NewUUID_def)

lemma NewBlock_fresh:
  "NewBlock r '''' st =
     (length (blocks st),
      st\<lparr>nextUUID := Suc (nextUUID st),
         blocks := blocks st @ [\<lparr>Result = r, OverlapTargets = [], BlockId = NewUUID (nextUUID st)\<rparr>]\<rparr>)"
  by (simp add: NewBlock_def)

lemma NewBlock_given:
  "blockID \<noteq> '''' \<Longrightarrow>
   NewBlock r blockID st =
     (length (blocks st),
      st\<lparr>blocks := blocks st @ [\<lparr>Result = r, OverlapTargets = [], BlockId = blockID\<rparr>]\<rparr>)"
  by (simp add: NewBlock_def)

lemma addOverlapTarget_length: "length (addOverlapTarget a t bls) = length bls"
  by (simp add: addOverlapTarget_def)

lemma addOverlapTarget_nth:
  "addOverlapTarget a t bls ! x =
     (if x = a \<and> a < length bls
      then (bls ! a)\<lparr>OverlapTargets := List.insert t (OverlapTargets (bls ! a))\<rparr>
      else bls ! x)"
  by (cases "a < length bls") (auto simp add: addOverlapTarget_def nth_list_update list_update_beyond)

lemma join_nextUUID: "nextUUID (join ib blockID st) = nextUUID st"
  by (simp add: join_def Let_def split: option.split)

lemma join_entries: "calculationEntriesMap (join ib blockID st) = calculationEntriesMap st"
  by (simp add: join_def Let_def split: option.split)

lemma join_bs:
  "bs (join ib blockID st) = AList.update (BlockId (blocks st ! ib_Block ib)) (ib_Block ib) (bs st)"
  by (simp add: join_def Let_def split: option.split)

lemma join_length: "length (blocks (join ib blockID st)) = length (blocks st)"
  by (simp add: join_def Let_def addOverlapTarget_length split: option.split)

lemma join_BlockId: "BlockId (blocks (join ib blockID st) ! x) = BlockId (blocks st ! x)"
  by (simp add: join_def Let_def addOverlapTarget_nth addOverlapTarget_length split: option.split)

lemma join_Result: "Result (blocks (join ib blockID st) ! x) = Result (blocks st ! x)"
  by (simp add: join_def Let_def addOverlapTarget_nth addOverlapTarget_length split: option.split)

lemma join_targets_mono:
  "set (OverlapTargets (blocks st ! x)) \<subseteq> set (OverlapTargets (blocks (join ib blockID st) ! x))"
  by (auto simp add: join_def Let_def addOverlapTarget_nth addOverlapTarget_length
      split: option.split)

text \<open>What a join changes: only the block joined and the block the target resolves to.\<close>

lemma join_other:
  "x \<noteq> ib_Block ib \<Longrightarrow> map_of (bs st) blockID \<noteq> Some x \<Longrightarrow>
   blockID \<noteq> BlockId (blocks st ! ib_Block ib) \<Longrightarrow>
   blocks (join ib blockID st) ! x = blocks st ! x"
  by (auto simp add: join_def Let_def addOverlapTarget_nth addOverlapTarget_length
      AList.update_conv' split: option.split)

lemma join_standalone:
  "ib_Block ib < length (blocks st) \<Longrightarrow>
   blocks (join ib (BlockId (blocks st ! ib_Block ib)) st) = blocks st"
  by (simp add: join_def Let_def AList.update_conv')

lemma grows_refl: "grows st st"
  by (simp add: grows_def)

lemma grows_trans: "grows st1 st2 \<Longrightarrow> grows st2 st3 \<Longrightarrow> grows st1 st3"
proof -
  assume a: "grows st1 st2" and b: "grows st2 st3"
  have "\<And>x. x < length (blocks st1) \<Longrightarrow>
      BlockId (blocks st3 ! x) = BlockId (blocks st1 ! x)
      \<and> Result (blocks st3 ! x) = Result (blocks st1 ! x)
      \<and> set (OverlapTargets (blocks st1 ! x)) \<subseteq> set (OverlapTargets (blocks st3 ! x))"
  proof -
    fix x
    assume x: "x < length (blocks st1)"
    with a have x2: "x < length (blocks st2)" by (simp add: grows_def)
    from a x have
      "BlockId (blocks st2 ! x) = BlockId (blocks st1 ! x)
       \<and> Result (blocks st2 ! x) = Result (blocks st1 ! x)
       \<and> set (OverlapTargets (blocks st1 ! x)) \<subseteq> set (OverlapTargets (blocks st2 ! x))"
      by (simp add: grows_def)
    moreover from b x2 have
      "BlockId (blocks st3 ! x) = BlockId (blocks st2 ! x)
       \<and> Result (blocks st3 ! x) = Result (blocks st2 ! x)
       \<and> set (OverlapTargets (blocks st2 ! x)) \<subseteq> set (OverlapTargets (blocks st3 ! x))"
      by (simp add: grows_def)
    ultimately show "BlockId (blocks st3 ! x) = BlockId (blocks st1 ! x)
      \<and> Result (blocks st3 ! x) = Result (blocks st1 ! x)
      \<and> set (OverlapTargets (blocks st1 ! x)) \<subseteq> set (OverlapTargets (blocks st3 ! x))"
      by auto
  qed
  moreover from a b have "length (blocks st1) \<le> length (blocks st3)"
    and "nextUUID st1 \<le> nextUUID st3"
    by (simp_all add: grows_def)
  ultimately show ?thesis by (simp add: grows_def)
qed

lemma grows_join: "grows st (join ib blockID st)"
  by (simp add: grows_def join_length join_nextUUID join_BlockId join_Result join_targets_mono)

lemma grows_NewBlock: "grows st (snd (NewBlock r blockID st))"
  by (simp add: grows_def NewBlock_def nth_append)

subsection \<open>Well-formed states\<close>

lemma wellFormed_alt:
  "wellFormed st \<longleftrightarrow>
     (\<forall>x < length (blocks st). \<exists>k < nextUUID st. BlockId (blocks st ! x) = NewUUID k)
     \<and> (\<forall>i x. (i, x) \<in> set (bs st) \<longrightarrow> x < length (blocks st) \<and> BlockId (blocks st ! x) = i)
     \<and> (\<forall>p entries c info n bl x.
           (p, entries) \<in> set (calculationEntriesMap st) \<longrightarrow> (c, info) \<in> set entries \<longrightarrow>
           (n, bl) \<in> set (CalculationResultsByNumas info) \<longrightarrow> x \<in> set bl \<longrightarrow>
           x < length (blocks st))"
proof -
  have a: "(\<forall>b \<in> set (blocks st). BlockId b \<in> set (map NewUUID [0..<nextUUID st]))
      \<longleftrightarrow> (\<forall>x < length (blocks st). \<exists>k < nextUUID st. BlockId (blocks st ! x) = NewUUID k)"
    by (auto simp add: all_set_conv_all_nth image_iff Bex_def)
  have b: "(\<forall>(i, x) \<in> set (bs st). x < length (blocks st) \<and> BlockId (blocks st ! x) = i)
      \<longleftrightarrow> (\<forall>i x. (i, x) \<in> set (bs st) \<longrightarrow> x < length (blocks st) \<and> BlockId (blocks st ! x) = i)"
    by auto
  have c: "(\<forall>(p, entries) \<in> set (calculationEntriesMap st).
          \<forall>(c, info) \<in> set entries.
            \<forall>(n, bl) \<in> set (CalculationResultsByNumas info).
              \<forall>x \<in> set bl. x < length (blocks st))
      \<longleftrightarrow> (\<forall>p entries c info n bl x.
           (p, entries) \<in> set (calculationEntriesMap st) \<longrightarrow> (c, info) \<in> set entries \<longrightarrow>
           (n, bl) \<in> set (CalculationResultsByNumas info) \<longrightarrow> x \<in> set bl \<longrightarrow>
           x < length (blocks st))"
    by fastforce
  show ?thesis
    unfolding wellFormed_def a b c ..
qed

lemma wellFormed_id:
  "wellFormed st \<Longrightarrow> x < length (blocks st) \<Longrightarrow> \<exists>k < nextUUID st. BlockId (blocks st ! x) = NewUUID k"
  by (simp add: wellFormed_alt)

lemma wellFormed_id_nonempty:
  "wellFormed st \<Longrightarrow> x < length (blocks st) \<Longrightarrow> BlockId (blocks st ! x) \<noteq> ''''"
  using wellFormed_id [of st x] by (auto simp add: NewUUID_def)

lemma wellFormed_id_fresh:
  "wellFormed st \<Longrightarrow> x < length (blocks st) \<Longrightarrow> BlockId (blocks st ! x) \<noteq> NewUUID (nextUUID st)"
  using wellFormed_id [of st x] by (auto simp add: NewUUID_inj)

lemma wellFormed_registry:
  "wellFormed st \<Longrightarrow> map_of (bs st) i = Some x \<Longrightarrow> x < length (blocks st) \<and> BlockId (blocks st ! x) = i"
  by (auto simp add: wellFormed_alt dest: map_of_SomeD)

lemma wellFormed_result:
  "wellFormed st \<Longrightarrow> getNumaCalculationResult (calculationEntriesMap st) p c n = Some bl \<Longrightarrow>
   x \<in> set bl \<Longrightarrow> x < length (blocks st)"
  unfolding wellFormed_alt getNumaCalculationResult_def
  by (auto split: option.splits dest!: map_of_SomeD)

lemma wellFormed_NewBlockSet: "wellFormed NewBlockSet"
  by (simp add: wellFormed_def NewBlockSet_def)

lemma set_update_subset: "set (AList.update k v al) \<subseteq> insert (k, v) (set al)"
  by (induction al) auto

lemma wellFormedI:
  assumes "\<And>x. x < length (blocks st) \<Longrightarrow> \<exists>k < nextUUID st. BlockId (blocks st ! x) = NewUUID k"
    and "\<And>i x. (i, x) \<in> set (bs st) \<Longrightarrow> x < length (blocks st) \<and> BlockId (blocks st ! x) = i"
    and "\<And>p entries c info n bl x.
           (p, entries) \<in> set (calculationEntriesMap st) \<Longrightarrow> (c, info) \<in> set entries \<Longrightarrow>
           (n, bl) \<in> set (CalculationResultsByNumas info) \<Longrightarrow> x \<in> set bl \<Longrightarrow>
           x < length (blocks st)"
  shows "wellFormed st"
  unfolding wellFormed_alt using assms by blast

lemma wellFormed_entry:
  "wellFormed st \<Longrightarrow> (p, entries) \<in> set (calculationEntriesMap st) \<Longrightarrow> (c, info) \<in> set entries \<Longrightarrow>
   (n, bl) \<in> set (CalculationResultsByNumas info) \<Longrightarrow> x \<in> set bl \<Longrightarrow> x < length (blocks st)"
  unfolding wellFormed_alt by blast

lemma wellFormed_bs:
  "wellFormed st \<Longrightarrow> (i, x) \<in> set (bs st) \<Longrightarrow> x < length (blocks st) \<and> BlockId (blocks st ! x) = i"
  unfolding wellFormed_alt by blast

lemma wellFormed_NewBlock_fresh:
  assumes "wellFormed st"
  shows "wellFormed (snd (NewBlock r '''' st))"
proof (rule wellFormedI)
  fix x
  assume "x < length (blocks (snd (NewBlock r '''' st)))"
  then have "x < length (blocks st) \<or> x = length (blocks st)"
    by (auto simp add: NewBlock_fresh)
  then show "\<exists>k<nextUUID (snd (NewBlock r '''' st)).
               BlockId (blocks (snd (NewBlock r '''' st)) ! x) = NewUUID k"
  proof
    assume x: "x < length (blocks st)"
    from wellFormed_id [OF assms x] obtain k where "k < nextUUID st"
      and "BlockId (blocks st ! x) = NewUUID k" by blast
    with x show ?thesis
      by (auto simp add: NewBlock_fresh nth_append intro!: exI [of _ k])
  next
    assume "x = length (blocks st)"
    then show ?thesis
      by (auto simp add: NewBlock_fresh nth_append intro!: exI [of _ "nextUUID st"])
  qed
next
  fix i x
  assume "(i, x) \<in> set (bs (snd (NewBlock r '''' st)))"
  then have "(i, x) \<in> set (bs st)" by (simp add: NewBlock_fresh)
  from wellFormed_bs [OF assms this]
  show "x < length (blocks (snd (NewBlock r '''' st)))
             \<and> BlockId (blocks (snd (NewBlock r '''' st)) ! x) = i"
    by (simp add: NewBlock_fresh nth_append)
next
  fix p entries c info n bl x
  assume "(p, entries) \<in> set (calculationEntriesMap (snd (NewBlock r '''' st)))"
    and "(c, info) \<in> set entries" and "(n, bl) \<in> set (CalculationResultsByNumas info)"
    and "x \<in> set bl"
  with assms have "x < length (blocks st)"
    by (auto simp add: NewBlock_fresh intro: wellFormed_entry)
  then show "x < length (blocks (snd (NewBlock r '''' st)))"
    by (simp add: NewBlock_fresh)
qed

lemma wellFormed_NewBlock_copy:
  assumes "wellFormed st" and "y < length (blocks st)"
  shows "wellFormed (snd (NewBlock r (BlockId (blocks st ! y)) st))"
proof -
  let ?id = "BlockId (blocks st ! y)"
  from wellFormed_id_nonempty [OF assms] have ne: "?id \<noteq> ''''" .
  note nb = NewBlock_given [OF ne]
  show ?thesis
  proof (rule wellFormedI)
    fix x
    assume "x < length (blocks (snd (NewBlock r ?id st)))"
    then have "x < length (blocks st) \<or> x = length (blocks st)"
      by (auto simp add: nb)
    then show "\<exists>k<nextUUID (snd (NewBlock r ?id st)).
                 BlockId (blocks (snd (NewBlock r ?id st)) ! x) = NewUUID k"
    proof
      assume x: "x < length (blocks st)"
      from wellFormed_id [OF assms(1) x] show ?thesis
        using x by (simp add: nb nth_append)
    next
      assume "x = length (blocks st)"
      with wellFormed_id [OF assms] show ?thesis
        by (simp add: nb nth_append)
    qed
  next
    fix i x
    assume "(i, x) \<in> set (bs (snd (NewBlock r ?id st)))"
    then have "(i, x) \<in> set (bs st)" by (simp add: nb)
    from wellFormed_bs [OF assms(1) this]
    show "x < length (blocks (snd (NewBlock r ?id st)))
               \<and> BlockId (blocks (snd (NewBlock r ?id st)) ! x) = i"
      by (simp add: nb nth_append)
  next
    fix p entries c info n bl x
    assume "(p, entries) \<in> set (calculationEntriesMap (snd (NewBlock r ?id st)))"
      and "(c, info) \<in> set entries" and "(n, bl) \<in> set (CalculationResultsByNumas info)"
      and "x \<in> set bl"
    with assms(1) have "x < length (blocks st)"
      by (auto simp add: nb intro: wellFormed_entry)
    then show "x < length (blocks (snd (NewBlock r ?id st)))"
      by (simp add: nb)
  qed
qed

lemma wellFormed_join:
  assumes "wellFormed st" and "ib_Block ib < length (blocks st)"
  shows "wellFormed (join ib blockID st)"
proof (rule wellFormedI)
  fix x
  assume "x < length (blocks (join ib blockID st))"
  then have "x < length (blocks st)" by (simp add: join_length)
  from wellFormed_id [OF assms(1) this]
  show "\<exists>k<nextUUID (join ib blockID st). BlockId (blocks (join ib blockID st) ! x) = NewUUID k"
    by (simp add: join_nextUUID join_BlockId)
next
  fix i x
  assume "(i, x) \<in> set (bs (join ib blockID st))"
  then have "(i, x) = (BlockId (blocks st ! ib_Block ib), ib_Block ib) \<or> (i, x) \<in> set (bs st)"
    using set_update_subset [of "BlockId (blocks st ! ib_Block ib)" "ib_Block ib" "bs st"]
    by (auto simp add: join_bs)
  then have "x < length (blocks st) \<and> BlockId (blocks st ! x) = i"
    using assms wellFormed_bs [OF assms(1)] by auto
  then show "x < length (blocks (join ib blockID st)) \<and> BlockId (blocks (join ib blockID st) ! x) = i"
    by (simp add: join_length join_BlockId)
next
  fix p entries c info n bl x
  assume "(p, entries) \<in> set (calculationEntriesMap (join ib blockID st))"
    and "(c, info) \<in> set entries" and "(n, bl) \<in> set (CalculationResultsByNumas info)"
    and "x \<in> set bl"
  with assms(1) have "x < length (blocks st)"
    by (auto simp add: join_entries intro: wellFormed_entry)
  then show "x < length (blocks (join ib blockID st))"
    by (simp add: join_length)
qed

subsection \<open>The steps of assembling a container\<close>

text \<open>A block made and joined standalone: nothing else changes.\<close>

lemma standalone_step:
  assumes "wellFormed st"
    and "NewBlock r '''' st = (a, st1)"
    and "st' = join (NewInnerBlock a numaID poolName ci) (BlockId (blocks st1 ! a)) st1"
  shows "a = length (blocks st)"
    and "wellFormed st'"
    and "calculationEntriesMap st' = calculationEntriesMap st"
    and "blocks st' = blocks st @ [\<lparr>Result = r, OverlapTargets = [], BlockId = NewUUID (nextUUID st)\<rparr>]"
    and "nextUUID st' = Suc (nextUUID st)"
    and "bs st' = AList.update (NewUUID (nextUUID st)) a (bs st)"
proof -
  from assms(2) show a: "a = length (blocks st)" by (simp add: NewBlock_fresh)
  from assms(2) have st1: "st1 = snd (NewBlock r '''' st)" by simp
  have wf1: "wellFormed st1"
    unfolding st1 by (rule wellFormed_NewBlock_fresh [OF assms(1)])
  have lt: "ib_Block (NewInnerBlock a numaID poolName ci) < length (blocks st1)"
    using a by (simp add: st1 NewBlock_fresh NewInnerBlock_def)
  from wellFormed_join [OF wf1 lt] show "wellFormed st'" by (simp add: assms(3))
  show "calculationEntriesMap st' = calculationEntriesMap st"
    by (simp add: assms(3) join_entries st1 NewBlock_fresh)
  have "blocks st' = blocks st1"
    using join_standalone [OF lt] by (simp add: assms(3) NewInnerBlock_def)
  then show "blocks st' = blocks st @ [\<lparr>Result = r, OverlapTargets = [], BlockId = NewUUID (nextUUID st)\<rparr>]"
    by (simp add: st1 NewBlock_fresh)
  show "nextUUID st' = Suc (nextUUID st)"
    by (simp add: assms(3) join_nextUUID st1 NewBlock_fresh)
  show "bs st' = AList.update (NewUUID (nextUUID st)) a (bs st)"
    using a by (simp add: assms(3) join_bs st1 NewBlock_fresh NewInnerBlock_def)
qed

text \<open>A sidecar's copy of a block: a new block with the same identifier and size.\<close>

lemma reuseBlock_step:
  assumes "wellFormed st" and "block < length (blocks st)"
  shows "\<exists>st'. reuseBlock numaID ci block (ncr, st) = (ncr @ [length (blocks st)], st')
      \<and> wellFormed st'
      \<and> calculationEntriesMap st' = calculationEntriesMap st
      \<and> nextUUID st' = nextUUID st
      \<and> blocks st' = blocks st @ [\<lparr>Result = Result (blocks st ! block), OverlapTargets = [],
                                    BlockId = BlockId (blocks st ! block)\<rparr>]"
proof -
  let ?id = "BlockId (blocks st ! block)"
  let ?st1 = "snd (NewBlock (Result (blocks st ! block)) ?id st)"
  let ?a = "length (blocks st)"
  let ?ib = "NewInnerBlock ?a numaID '''' (Some ci)"
  from wellFormed_id_nonempty [OF assms] have ne: "?id \<noteq> ''''" .
  note nb = NewBlock_given [OF ne]
  have wf1: "wellFormed ?st1" by (rule wellFormed_NewBlock_copy [OF assms])
  have lt: "ib_Block ?ib < length (blocks ?st1)" by (simp add: nb NewInnerBlock_def)
  have id1: "BlockId (blocks ?st1 ! block) = ?id"
    using assms(2) by (simp add: nb nth_append)
  have ida: "BlockId (blocks ?st1 ! ib_Block ?ib) = ?id"
    by (simp add: nb NewInnerBlock_def)
  have r: "reuseBlock numaID ci block (ncr, st) = (ncr @ [?a], join ?ib ?id ?st1)"
    using assms(2) by (simp add: reuseBlock_def nb nth_append)
  have "blocks (join ?ib ?id ?st1) = blocks ?st1"
    using join_standalone [OF lt] by (simp only: ida)
  then have b: "blocks (join ?ib ?id ?st1) =
      blocks st @ [\<lparr>Result = Result (blocks st ! block), OverlapTargets = [], BlockId = ?id\<rparr>]"
    by (simp add: nb)
  from wellFormed_join [OF wf1 lt] have "wellFormed (join ?ib ?id ?st1)" .
  with r b show ?thesis
    by (simp add: join_entries join_nextUUID nb)
qed

text \<open>
  Claiming a block of the reclaimed pool. Other blocks keep their contents unless the
  registry resolves the claimed block's identifier to them; identifiers known before keep
  their registration.
\<close>

lemma claimBlock_step:
  assumes "wellFormed st" and "block < length (blocks st)"
  shows "\<exists>ncr' st'. claimBlock numaID ci cpuset block (ncr, st) = (ncr', st')
      \<and> wellFormed st' \<and> grows st st'
      \<and> calculationEntriesMap st' = calculationEntriesMap st
      \<and> set ncr' \<subseteq> set ncr \<union> {length (blocks st)}
      \<and> length (blocks st') \<le> Suc (length (blocks st))
      \<and> (\<forall>y < length (blocks st). map_of (bs st) (BlockId (blocks st ! block)) \<noteq> Some y
            \<longrightarrow> blocks st' ! y = blocks st ! y)
      \<and> (\<forall>y < length (blocks st). map_of (bs st') (BlockId (blocks st ! y))
            = map_of (bs st) (BlockId (blocks st ! y)))"
proof (cases "OverlapTargets (blocks st ! block) = []")
  case False
  then have "claimBlock numaID ci cpuset block (ncr, st) = (ncr, st)"
    by (simp add: claimBlock_def)
  with assms(1) show ?thesis by (auto simp add: grows_refl)
next
  case True
  let ?st1 = "snd (NewBlock (word_of_int (Size cpuset)) '''' st)"
  let ?a = "length (blocks st)"
  let ?ib = "NewInnerBlock ?a numaID '''' (Some ci)"
  let ?id = "BlockId (blocks st ! block)"
  let ?st' = "join ?ib ?id ?st1"
  have id1: "BlockId (blocks ?st1 ! block) = ?id"
    using assms(2) by (simp add: NewBlock_fresh nth_append)
  have c: "claimBlock numaID ci cpuset block (ncr, st) = (ncr @ [?a], ?st')"
    using True assms(2) by (simp add: claimBlock_def NewBlock_fresh nth_append)
  have wf1: "wellFormed ?st1" by (rule wellFormed_NewBlock_fresh [OF assms(1)])
  have lt: "ib_Block ?ib < length (blocks ?st1)" by (simp add: NewBlock_fresh NewInnerBlock_def)
  have wf': "wellFormed ?st'" by (rule wellFormed_join [OF wf1 lt])
  have g: "grows st ?st'"
    by (rule grows_trans [OF grows_NewBlock grows_join])
  have fresh: "\<And>y. y < length (blocks st) \<Longrightarrow> BlockId (blocks st ! y) \<noteq> NewUUID (nextUUID st)"
    by (rule wellFormed_id_fresh [OF assms(1)])
  have frame: "\<And>y. y < length (blocks st) \<Longrightarrow> map_of (bs st) ?id \<noteq> Some y
      \<Longrightarrow> blocks ?st' ! y = blocks st ! y"
  proof -
    fix y
    assume y: "y < length (blocks st)" and n: "map_of (bs st) ?id \<noteq> Some y"
    have 1: "y \<noteq> ib_Block ?ib" using y by (simp add: NewInnerBlock_def)
    have 2: "map_of (bs ?st1) ?id \<noteq> Some y" using n by (simp add: NewBlock_fresh)
    have 3: "?id \<noteq> BlockId (blocks ?st1 ! ib_Block ?ib)"
      using fresh [OF assms(2)] by (simp add: NewBlock_fresh NewInnerBlock_def)
    from join_other [OF 1 2 3] y show "blocks ?st' ! y = blocks st ! y"
      by (simp add: NewBlock_fresh nth_append)
  qed
  have reg: "\<And>y. y < length (blocks st) \<Longrightarrow>
      map_of (bs ?st') (BlockId (blocks st ! y)) = map_of (bs st) (BlockId (blocks st ! y))"
    using fresh by (simp add: join_bs NewBlock_fresh NewInnerBlock_def AList.update_conv')
  from c wf' g frame reg show ?thesis
    by (simp add: join_entries join_length NewBlock_fresh)
qed

lemma grows_length: "grows st st' \<Longrightarrow> x < length (blocks st) \<Longrightarrow> x < length (blocks st')"
  by (simp add: grows_def)

lemma grows_BlockId: "grows st st' \<Longrightarrow> x < length (blocks st) \<Longrightarrow>
    BlockId (blocks st' ! x) = BlockId (blocks st ! x)"
  by (simp add: grows_def)

lemma grows_Result: "grows st st' \<Longrightarrow> x < length (blocks st) \<Longrightarrow>
    Result (blocks st' ! x) = Result (blocks st ! x)"
  by (simp add: grows_def)

lemma grows_targets: "grows st st' \<Longrightarrow> x < length (blocks st) \<Longrightarrow>
    t \<in> set (OverlapTargets (blocks st ! x)) \<Longrightarrow> t \<in> set (OverlapTargets (blocks st' ! x))"
  by (auto simp add: grows_def)

lemma grows_idSize: "grows st st' \<Longrightarrow> x < length (blocks st) \<Longrightarrow> idSize st' x = idSize st x"
  by (simp add: grows_def idSize_def)

lemma grows_nextUUID: "grows st st' \<Longrightarrow> nextUUID st \<le> nextUUID st'"
  by (simp add: grows_def)

lemma claimBlock_claims:
  assumes "wellFormed st" and "r < length (blocks st)"
    and "OverlapTargets (blocks st ! r) = []"
    and "map_of (bs st) (BlockId (blocks st ! r)) = Some r"
  shows "\<exists>st'. claimBlock numaID ci cpuset r (ncr, st) = (ncr @ [length (blocks st)], st')
      \<and> wellFormed st' \<and> grows st st'
      \<and> calculationEntriesMap st' = calculationEntriesMap st
      \<and> length (blocks st') = Suc (length (blocks st))
      \<and> blocks st' ! length (blocks st) =
          \<lparr>Result = word_of_int (Size cpuset), OverlapTargets = [BlockId (blocks st ! r)],
           BlockId = NewUUID (nextUUID st)\<rparr>
      \<and> OverlapTargets (blocks st' ! r) = [NewUUID (nextUUID st)]"
proof -
  let ?st1 = "snd (NewBlock (word_of_int (Size cpuset)) '''' st)"
  let ?a = "length (blocks st)"
  let ?ib = "NewInnerBlock ?a numaID '''' (Some ci)"
  let ?id = "BlockId (blocks st ! r)"
  let ?st' = "join ?ib ?id ?st1"
  have c: "claimBlock numaID ci cpuset r (ncr, st) = (ncr @ [?a], ?st')"
    using assms(2,3) by (simp add: claimBlock_def NewBlock_fresh nth_append)
  have wf1: "wellFormed ?st1" by (rule wellFormed_NewBlock_fresh [OF assms(1)])
  have lt: "ib_Block ?ib < length (blocks ?st1)" by (simp add: NewBlock_fresh NewInnerBlock_def)
  have wf': "wellFormed ?st'" by (rule wellFormed_join [OF wf1 lt])
  have g: "grows st ?st'"
    by (rule grows_trans [OF grows_NewBlock grows_join])
  have fresh: "?id \<noteq> NewUUID (nextUUID st)"
    by (rule wellFormed_id_fresh [OF assms(1,2)])
  have ne: "?id \<noteq> ''''"
    by (rule wellFormed_id_nonempty [OF assms(1,2)])
  have res: "map_of (AList.update (NewUUID (nextUUID st)) ?a (bs st)) ?id = Some r"
    using fresh assms(4) by (simp add: AList.update_conv')
  have ra: "r \<noteq> ?a" using assms(2) by simp
  have bl: "blocks ?st' =
      addOverlapTarget r (NewUUID (nextUUID st))
        (addOverlapTarget ?a ?id
           (blocks st @ [\<lparr>Result = word_of_int (Size cpuset), OverlapTargets = [],
                           BlockId = NewUUID (nextUUID st)\<rparr>]))"
    using ne res ra assms(2)
    by (simp add: join_def Let_def NewBlock_fresh NewInnerBlock_def nth_append)
  have new: "blocks ?st' ! ?a =
      \<lparr>Result = word_of_int (Size cpuset), OverlapTargets = [?id], BlockId = NewUUID (nextUUID st)\<rparr>"
    using ra by (simp add: bl addOverlapTarget_nth addOverlapTarget_length nth_append)
  have old: "OverlapTargets (blocks ?st' ! r) = [NewUUID (nextUUID st)]"
    using ra assms(2,3) by (simp add: bl addOverlapTarget_nth addOverlapTarget_length nth_append)
  from c wf' g new old show ?thesis
    by (simp add: join_entries join_length NewBlock_fresh)
qed

lemma fold_claimBlock:
  assumes "wellFormed st" and "\<forall>x \<in> set L. x < length (blocks st)"
  shows "\<exists>ncr' st'. fold (claimBlock numaID ci cpuset) L (ncr, st) = (ncr', st')
      \<and> wellFormed st' \<and> grows st st'
      \<and> calculationEntriesMap st' = calculationEntriesMap st
      \<and> (\<forall>x \<in> set ncr'. x \<in> set ncr \<or> x < length (blocks st'))
      \<and> (\<forall>r < length (blocks st).
            (\<forall>x \<in> set L. BlockId (blocks st ! x) \<noteq> BlockId (blocks st ! r)) \<longrightarrow>
            blocks st' ! r = blocks st ! r
            \<and> map_of (bs st') (BlockId (blocks st ! r)) = map_of (bs st) (BlockId (blocks st ! r)))"
  using assms
proof (induction L arbitrary: ncr st)
  case Nil
  then show ?case by (simp add: grows_refl)
next
  case (Cons x L)
  from Cons.prems have x: "x < length (blocks st)" by simp
  from claimBlock_step [OF Cons.prems(1) x, of numaID ci cpuset ncr]
  obtain ncr1 st1 where
    s: "claimBlock numaID ci cpuset x (ncr, st) = (ncr1, st1)"
    and wf1: "wellFormed st1" and g1: "grows st st1"
    and e1: "calculationEntriesMap st1 = calculationEntriesMap st"
    and n1: "set ncr1 \<subseteq> set ncr \<union> {length (blocks st)}"
    and l1: "length (blocks st1) \<le> Suc (length (blocks st))"
    and f1: "\<forall>y < length (blocks st). map_of (bs st) (BlockId (blocks st ! x)) \<noteq> Some y
            \<longrightarrow> blocks st1 ! y = blocks st ! y"
    and r1: "\<forall>y < length (blocks st). map_of (bs st1) (BlockId (blocks st ! y))
            = map_of (bs st) (BlockId (blocks st ! y))"
    by blast
  have v1: "\<forall>x \<in> set L. x < length (blocks st1)"
    using Cons.prems(2) g1 by (auto intro: grows_length)
  from Cons.IH [OF wf1 v1, of ncr1]
  obtain ncr' st' where
    f: "fold (claimBlock numaID ci cpuset) L (ncr1, st1) = (ncr', st')"
    and wf': "wellFormed st'" and g': "grows st1 st'"
    and e': "calculationEntriesMap st' = calculationEntriesMap st1"
    and n': "\<forall>x \<in> set ncr'. x \<in> set ncr1 \<or> x < length (blocks st')"
    and fr': "\<forall>r < length (blocks st1).
            (\<forall>x \<in> set L. BlockId (blocks st1 ! x) \<noteq> BlockId (blocks st1 ! r)) \<longrightarrow>
            blocks st' ! r = blocks st1 ! r
            \<and> map_of (bs st') (BlockId (blocks st1 ! r)) = map_of (bs st1) (BlockId (blocks st1 ! r))"
    by blast
  have g: "grows st st'" by (rule grows_trans [OF g1 g'])
  have valid: "\<forall>x \<in> set ncr'. x \<in> set ncr \<or> x < length (blocks st')"
  proof
    fix y assume "y \<in> set ncr'"
    with n' have "y \<in> set ncr1 \<or> y < length (blocks st')" by blast
    then show "y \<in> set ncr \<or> y < length (blocks st')"
    proof
      assume "y \<in> set ncr1"
      with n1 have "y \<in> set ncr \<or> y = length (blocks st)" by auto
      then show ?thesis
      proof
        assume "y = length (blocks st)"
        show ?thesis
        proof (cases "length (blocks st1) = length (blocks st)")
          case True
          have "claimBlock numaID ci cpuset x (ncr, st) = (ncr, st) \<or>
                length (blocks st1) = Suc (length (blocks st))"
            using s by (auto simp add: claimBlock_def Let_def NewBlock_fresh join_length
                split: if_splits)
          with True s have "ncr1 = ncr" by auto
          with \<open>y \<in> set ncr1\<close> show ?thesis by simp
        next
          case False
          with l1 g1 have "length (blocks st1) = Suc (length (blocks st))"
            by (simp add: grows_def)
          with \<open>y = length (blocks st)\<close> g' show ?thesis
            by (simp add: grows_def)
        qed
      qed simp
    qed simp
  qed
  have frame: "\<forall>r < length (blocks st).
            (\<forall>x \<in> set (x # L). BlockId (blocks st ! x) \<noteq> BlockId (blocks st ! r)) \<longrightarrow>
            blocks st' ! r = blocks st ! r
            \<and> map_of (bs st') (BlockId (blocks st ! r)) = map_of (bs st) (BlockId (blocks st ! r))"
  proof (intro allI impI)
    fix r
    assume r: "r < length (blocks st)"
      and d: "\<forall>x \<in> set (x # L). BlockId (blocks st ! x) \<noteq> BlockId (blocks st ! r)"
    have "map_of (bs st) (BlockId (blocks st ! x)) \<noteq> Some r"
    proof
      assume "map_of (bs st) (BlockId (blocks st ! x)) = Some r"
      from wellFormed_registry [OF Cons.prems(1) this] d show False by simp
    qed
    with f1 r have b1: "blocks st1 ! r = blocks st ! r" by simp
    from r1 r have m1: "map_of (bs st1) (BlockId (blocks st ! r)) = map_of (bs st) (BlockId (blocks st ! r))"
      by simp
    have r': "r < length (blocks st1)" using r g1 by (rule grows_length [rotated])
    have d': "\<forall>x \<in> set L. BlockId (blocks st1 ! x) \<noteq> BlockId (blocks st1 ! r)"
      using d Cons.prems(2) r g1 by (simp add: grows_BlockId)
    from fr' r' d'
    have "blocks st' ! r = blocks st1 ! r"
      and "map_of (bs st') (BlockId (blocks st1 ! r)) = map_of (bs st1) (BlockId (blocks st1 ! r))"
      by blast+
    then show "blocks st' ! r = blocks st ! r
            \<and> map_of (bs st') (BlockId (blocks st ! r)) = map_of (bs st) (BlockId (blocks st ! r))"
      by (simp add: b1 m1)
  qed
  from f s wf' g e' e1 valid frame show ?case by simp
qed

text \<open>
  One NUMA index of the first container of a pod. A block keeps its contents and its
  registration when no block of the reclaimed pool on this index has its identifier.
\<close>

lemma assemblePodNuma_first:
  assumes "wellFormed st" and "map_of (calculationEntriesMap st) podUID = None"
  shows "\<exists>bl st'. assemblePodNuma podUID ci (numaID, cpuset) (res, st) = (AList.update numaID bl res, st')
      \<and> wellFormed st' \<and> grows st st'
      \<and> calculationEntriesMap st' = calculationEntriesMap st
      \<and> (\<forall>x \<in> set bl. x < length (blocks st'))
      \<and> (\<forall>r < length (blocks st).
            (\<forall>bl0 x. getNumaCalculationResult (calculationEntriesMap st) PoolNameReclaim
                        FakedContainerName numaID = Some bl0 \<longrightarrow> x \<in> set bl0 \<longrightarrow>
                      BlockId (blocks st ! x) \<noteq> BlockId (blocks st ! r)) \<longrightarrow>
            blocks st' ! r = blocks st ! r
            \<and> map_of (bs st') (BlockId (blocks st ! r)) = map_of (bs st) (BlockId (blocks st ! r)))"
proof (cases "getNumaCalculationResult (calculationEntriesMap st) PoolNameReclaim
                FakedContainerName numaID")
  case None
  obtain a st1 where nb: "NewBlock (word_of_int (Size cpuset)) '''' st = (a, st1)"
    by (cases "NewBlock (word_of_int (Size cpuset)) '''' st")
  define st' where "st' = join (NewInnerBlock a numaID '''' (Some ci)) (BlockId (blocks st1 ! a)) st1"
  note s = standalone_step [OF assms(1) nb st'_def]
  have st1: "st1 = snd (NewBlock (word_of_int (Size cpuset)) '''' st)" using nb by simp
  have g: "grows st st'"
    unfolding st'_def st1 by (rule grows_trans [OF grows_NewBlock grows_join])
  have eq: "assemblePodNuma podUID ci (numaID, cpuset) (res, st) = (AList.update numaID [a] res, st')"
    by (simp add: assemblePodNuma_def assms(2) None nb st'_def)
  have frame: "\<And>r. r < length (blocks st) \<Longrightarrow>
      blocks st' ! r = blocks st ! r
      \<and> map_of (bs st') (BlockId (blocks st ! r)) = map_of (bs st) (BlockId (blocks st ! r))"
    using wellFormed_id_fresh [OF assms(1)]
    by (simp add: s(4,6) nth_append AList.update_conv')
  have la: "a < length (blocks st')" by (simp add: s(1,4))
  from eq s(2,3) g frame la show ?thesis
    by (intro exI [of _ "[a]"] exI [of _ st']) simp
next
  case (Some L)
  have v: "\<forall>x \<in> set L. x < length (blocks st)"
    using wellFormed_result [OF assms(1) Some] by blast
  from fold_claimBlock [OF assms(1) v, of numaID ci cpuset "[]"]
  obtain ncr' st' where
    f: "fold (claimBlock numaID ci cpuset) L ([], st) = (ncr', st')"
    and wf': "wellFormed st'" and g': "grows st st'"
    and e': "calculationEntriesMap st' = calculationEntriesMap st"
    and n': "\<forall>x \<in> set ncr'. x \<in> set [] \<or> x < length (blocks st')"
    and fr': "\<forall>r < length (blocks st).
            (\<forall>x \<in> set L. BlockId (blocks st ! x) \<noteq> BlockId (blocks st ! r)) \<longrightarrow>
            blocks st' ! r = blocks st ! r
            \<and> map_of (bs st') (BlockId (blocks st ! r)) = map_of (bs st) (BlockId (blocks st ! r))"
    by blast
  have eq: "assemblePodNuma podUID ci (numaID, cpuset) (res, st) = (AList.update numaID ncr' res, st')"
    by (simp add: assemblePodNuma_def assms(2) Some f)
  from eq wf' g' e' n' fr' show ?thesis
    by (intro exI [of _ ncr'] exI [of _ st']) (simp add: Some)
qed

lemma assemblePodNuma_claim:
  assumes "wellFormed st" and "map_of (calculationEntriesMap st) podUID = None"
    and "getNumaCalculationResult (calculationEntriesMap st) PoolNameReclaim
           FakedContainerName numaID = Some [r]"
    and "OverlapTargets (blocks st ! r) = []"
    and "map_of (bs st) (BlockId (blocks st ! r)) = Some r"
  shows "\<exists>st'. assemblePodNuma podUID ci (numaID, cpuset) (res, st) =
               (AList.update numaID [length (blocks st)] res, st')
      \<and> wellFormed st' \<and> grows st st'
      \<and> calculationEntriesMap st' = calculationEntriesMap st
      \<and> length (blocks st') = Suc (length (blocks st))
      \<and> blocks st' ! length (blocks st) =
          \<lparr>Result = word_of_int (Size cpuset), OverlapTargets = [BlockId (blocks st ! r)],
           BlockId = NewUUID (nextUUID st)\<rparr>
      \<and> OverlapTargets (blocks st' ! r) = [NewUUID (nextUUID st)]"
proof -
  have r: "r < length (blocks st)"
    using wellFormed_result [OF assms(1,3)] by simp
  from claimBlock_claims [OF assms(1) r assms(4,5), of numaID ci cpuset "[]"]
  obtain st' where
    c: "claimBlock numaID ci cpuset r ([], st) = ([length (blocks st)], st')"
    and rest: "wellFormed st'" "grows st st'"
      "calculationEntriesMap st' = calculationEntriesMap st"
      "length (blocks st') = Suc (length (blocks st))"
      "blocks st' ! length (blocks st) =
          \<lparr>Result = word_of_int (Size cpuset), OverlapTargets = [BlockId (blocks st ! r)],
           BlockId = NewUUID (nextUUID st)\<rparr>"
      "OverlapTargets (blocks st' ! r) = [NewUUID (nextUUID st)]"
    by auto
  have "assemblePodNuma podUID ci (numaID, cpuset) (res, st) =
               (AList.update numaID [length (blocks st)] res, st')"
    by (simp add: assemblePodNuma_def assms(2,3) c)
  with rest show ?thesis by blast
qed

lemma assemblePodNuma_skip:
  assumes "map_of (calculationEntriesMap st) podUID = None"
    and "getNumaCalculationResult (calculationEntriesMap st) PoolNameReclaim
           FakedContainerName numaID = Some [r]"
    and "OverlapTargets (blocks st ! r) \<noteq> []"
  shows "assemblePodNuma podUID ci (numaID, cpuset) (res, st) = (AList.update numaID [] res, st)"
  using assms by (simp add: assemblePodNuma_def claimBlock_def)

lemma fold_assemblePodNuma_first:
  assumes "wellFormed st" and "map_of (calculationEntriesMap st) podUID = None"
    and "\<forall>(k, bl) \<in> set res. \<forall>x \<in> set bl. x < length (blocks st)"
  shows "\<exists>res' st'. fold (assemblePodNuma podUID ci) l (res, st) = (res', st')
      \<and> wellFormed st' \<and> grows st st'
      \<and> calculationEntriesMap st' = calculationEntriesMap st
      \<and> (\<forall>(k, bl) \<in> set res'. \<forall>x \<in> set bl. x < length (blocks st'))
      \<and> (\<forall>k. k \<notin> fst ` set l \<longrightarrow> map_of res' k = map_of res k)
      \<and> (\<forall>k \<in> fst ` set l. map_of res' k \<noteq> None)
      \<and> (\<forall>r < length (blocks st).
            (\<forall>n' bl0 x. n' \<in> fst ` set l \<longrightarrow>
                getNumaCalculationResult (calculationEntriesMap st) PoolNameReclaim
                  FakedContainerName n' = Some bl0 \<longrightarrow> x \<in> set bl0 \<longrightarrow>
                BlockId (blocks st ! x) \<noteq> BlockId (blocks st ! r)) \<longrightarrow>
            blocks st' ! r = blocks st ! r
            \<and> map_of (bs st') (BlockId (blocks st ! r)) = map_of (bs st) (BlockId (blocks st ! r)))"
  using assms
proof (induction l arbitrary: res st)
  case Nil
  then show ?case by (simp add: grows_refl)
next
  case (Cons a l)
  obtain numaID cpuset where a: "a = (numaID, cpuset)" by (cases a)
  from assemblePodNuma_first [OF Cons.prems(1,2), of ci numaID cpuset res]
  obtain bl st1 where
    s: "assemblePodNuma podUID ci (numaID, cpuset) (res, st) = (AList.update numaID bl res, st1)"
    and wf1: "wellFormed st1" and g1: "grows st st1"
    and e1: "calculationEntriesMap st1 = calculationEntriesMap st"
    and v1: "\<forall>x \<in> set bl. x < length (blocks st1)"
    and f1: "\<forall>r < length (blocks st).
            (\<forall>bl0 x. getNumaCalculationResult (calculationEntriesMap st) PoolNameReclaim
                        FakedContainerName numaID = Some bl0 \<longrightarrow> x \<in> set bl0 \<longrightarrow>
                      BlockId (blocks st ! x) \<noteq> BlockId (blocks st ! r)) \<longrightarrow>
            blocks st1 ! r = blocks st ! r
            \<and> map_of (bs st1) (BlockId (blocks st ! r)) = map_of (bs st) (BlockId (blocks st ! r))"
    by blast
  let ?res1 = "AList.update numaID bl res"
  have p1: "map_of (calculationEntriesMap st1) podUID = None"
    using Cons.prems(2) by (simp add: e1)
  have val1: "\<forall>(k, bl) \<in> set ?res1. \<forall>x \<in> set bl. x < length (blocks st1)"
  proof (clarify)
    fix k b x
    assume "(k, b) \<in> set ?res1" and x: "x \<in> set b"
    then have "(k, b) = (numaID, bl) \<or> (k, b) \<in> set res"
      using set_update_subset [of numaID bl res] by auto
    then show "x < length (blocks st1)"
    proof
      assume "(k, b) = (numaID, bl)"
      with v1 x show ?thesis by simp
    next
      assume "(k, b) \<in> set res"
      with Cons.prems(3) x have "x < length (blocks st)" by auto
      then show ?thesis using g1 by (rule grows_length [rotated])
    qed
  qed
  from Cons.IH [OF wf1 p1 val1]
  obtain res' st' where
    f: "fold (assemblePodNuma podUID ci) l (?res1, st1) = (res', st')"
    and wf': "wellFormed st'" and g': "grows st1 st'"
    and e': "calculationEntriesMap st' = calculationEntriesMap st1"
    and val': "\<forall>(k, bl) \<in> set res'. \<forall>x \<in> set bl. x < length (blocks st')"
    and o': "\<forall>k. k \<notin> fst ` set l \<longrightarrow> map_of res' k = map_of ?res1 k"
    and k': "\<forall>k \<in> fst ` set l. map_of res' k \<noteq> None"
    and fr': "\<forall>r < length (blocks st1).
            (\<forall>n' bl0 x. n' \<in> fst ` set l \<longrightarrow>
                getNumaCalculationResult (calculationEntriesMap st1) PoolNameReclaim
                  FakedContainerName n' = Some bl0 \<longrightarrow> x \<in> set bl0 \<longrightarrow>
                BlockId (blocks st1 ! x) \<noteq> BlockId (blocks st1 ! r)) \<longrightarrow>
            blocks st' ! r = blocks st1 ! r
            \<and> map_of (bs st') (BlockId (blocks st1 ! r)) = map_of (bs st1) (BlockId (blocks st1 ! r))"
    by blast
  have eq: "fold (assemblePodNuma podUID ci) (a # l) (res, st) = (res', st')"
    by (simp add: a s f)
  have g: "grows st st'" by (rule grows_trans [OF g1 g'])
  have e: "calculationEntriesMap st' = calculationEntriesMap st" by (simp add: e' e1)
  have other: "\<forall>k. k \<notin> fst ` set (a # l) \<longrightarrow> map_of res' k = map_of res k"
    using o' by (simp add: a AList.update_conv')
  have keys: "\<forall>k \<in> fst ` set (a # l). map_of res' k \<noteq> None"
  proof
    fix k assume "k \<in> fst ` set (a # l)"
    then have "k \<in> fst ` set l \<or> (k = numaID \<and> k \<notin> fst ` set l)" by (auto simp add: a)
    then show "map_of res' k \<noteq> None"
    proof
      assume "k \<in> fst ` set l" with k' show ?thesis by blast
    next
      assume "k = numaID \<and> k \<notin> fst ` set l"
      then have "map_of res' k = map_of ?res1 k" and "k = numaID" using o' by blast+
      then show ?thesis by (simp add: AList.update_conv')
    qed
  qed
  have frame: "\<forall>r < length (blocks st).
            (\<forall>n' bl0 x. n' \<in> fst ` set (a # l) \<longrightarrow>
                getNumaCalculationResult (calculationEntriesMap st) PoolNameReclaim
                  FakedContainerName n' = Some bl0 \<longrightarrow> x \<in> set bl0 \<longrightarrow>
                BlockId (blocks st ! x) \<noteq> BlockId (blocks st ! r)) \<longrightarrow>
            blocks st' ! r = blocks st ! r
            \<and> map_of (bs st') (BlockId (blocks st ! r)) = map_of (bs st) (BlockId (blocks st ! r))"
  proof (intro allI impI)
    fix r
    assume r: "r < length (blocks st)"
      and d: "\<forall>n' bl0 x. n' \<in> fst ` set (a # l) \<longrightarrow>
                getNumaCalculationResult (calculationEntriesMap st) PoolNameReclaim
                  FakedContainerName n' = Some bl0 \<longrightarrow> x \<in> set bl0 \<longrightarrow>
                BlockId (blocks st ! x) \<noteq> BlockId (blocks st ! r)"
    from d have d0: "\<forall>bl0 x. getNumaCalculationResult (calculationEntriesMap st) PoolNameReclaim
                        FakedContainerName numaID = Some bl0 \<longrightarrow> x \<in> set bl0 \<longrightarrow>
                      BlockId (blocks st ! x) \<noteq> BlockId (blocks st ! r)"
      by (simp add: a)
    from f1 r d0 have b1: "blocks st1 ! r = blocks st ! r"
      and m1: "map_of (bs st1) (BlockId (blocks st ! r)) = map_of (bs st) (BlockId (blocks st ! r))"
      by blast+
    have r1: "r < length (blocks st1)" using r g1 by (rule grows_length [rotated])
    have d1: "\<forall>n' bl0 x. n' \<in> fst ` set l \<longrightarrow>
                getNumaCalculationResult (calculationEntriesMap st1) PoolNameReclaim
                  FakedContainerName n' = Some bl0 \<longrightarrow> x \<in> set bl0 \<longrightarrow>
                BlockId (blocks st1 ! x) \<noteq> BlockId (blocks st1 ! r)"
    proof (intro allI impI)
      fix n' bl0 x
      assume n': "n' \<in> fst ` set l"
        and gr: "getNumaCalculationResult (calculationEntriesMap st1) PoolNameReclaim
                  FakedContainerName n' = Some bl0"
        and x: "x \<in> set bl0"
      from gr have gr0: "getNumaCalculationResult (calculationEntriesMap st) PoolNameReclaim
                  FakedContainerName n' = Some bl0" by (simp add: e1)
      from wellFormed_result [OF Cons.prems(1) gr0 x] have xv: "x < length (blocks st)" .
      from d n' gr0 x have "BlockId (blocks st ! x) \<noteq> BlockId (blocks st ! r)"
        by (simp add: a)
      then show "BlockId (blocks st1 ! x) \<noteq> BlockId (blocks st1 ! r)"
        by (simp add: grows_BlockId [OF g1 xv] grows_BlockId [OF g1 r])
    qed
    from fr' r1 d1 have "blocks st' ! r = blocks st1 ! r"
      and "map_of (bs st') (BlockId (blocks st1 ! r)) = map_of (bs st1) (BlockId (blocks st1 ! r))"
      by blast+
    then show "blocks st' ! r = blocks st ! r
            \<and> map_of (bs st') (BlockId (blocks st ! r)) = map_of (bs st) (BlockId (blocks st ! r))"
      by (simp add: b1 m1)
  qed
  from eq wf' g e val' other keys frame show ?case
    by (intro exI [of _ res'] exI [of _ st']) simp
qed

lemma dedicated_not_skipped:
  "IsDedicatedNumaBinding ci \<Longrightarrow>
   QoSLevel ci \<noteq> PodAnnotationQoSLevelSharedCores \<and> QoSLevel ci \<noteq> PodAnnotationQoSLevelReclaimedCores"
  by (simp add: IsDedicatedNumaBinding_def PodAnnotationQoSLevelDedicatedCores_def
      PodAnnotationQoSLevelSharedCores_def PodAnnotationQoSLevelReclaimedCores_def)

lemma assemblePodEntries_dedicated:
  assumes "IsDedicatedNumaBinding ci"
    and "fold (assemblePodNuma podUID ci) (TopologyAwareAssignments ci) ([], st) = (res, st1)"
  shows "assemblePodEntries st podUID ci =
     (st1\<lparr>calculationEntriesMap :=
            AList.update podUID
              (AList.update (ContainerName ci)
                 \<lparr>calc_OwnerPoolName = publishedOwnerPoolName ci, CalculationResultsByNumas = res\<rparr>
                 (case map_of (calculationEntriesMap st1) podUID of None \<Rightarrow> [] | Some entries \<Rightarrow> entries))
              (calculationEntriesMap st1)\<rparr>, None)"
  using assms dedicated_not_skipped [OF assms(1)]
  by (simp add: assemblePodEntries_def Let_def)

lemma getNumaCalculationResult_update:
  "getNumaCalculationResult (AList.update p (AList.update c info entries) m) p' c' n =
     (if p' = p
      then (if c' = c then map_of (CalculationResultsByNumas info) n
            else (case map_of entries c' of None \<Rightarrow> None
                  | Some i \<Rightarrow> map_of (CalculationResultsByNumas i) n))
      else getNumaCalculationResult m p' c' n)"
  by (simp add: getNumaCalculationResult_def AList.update_conv')

lemma wellFormed_entries_update:
  assumes "wellFormed st"
    and "\<forall>(k, bl) \<in> set res. \<forall>x \<in> set bl. x < length (blocks st)"
    and "entries = (case map_of (calculationEntriesMap st) p of None \<Rightarrow> [] | Some e \<Rightarrow> e)"
  shows "wellFormed (st\<lparr>calculationEntriesMap :=
            AList.update p (AList.update c \<lparr>calc_OwnerPoolName = name, CalculationResultsByNumas = res\<rparr> entries)
              (calculationEntriesMap st)\<rparr>)"
proof (rule wellFormedI)
  fix x
  assume "x < length (blocks (st\<lparr>calculationEntriesMap :=
            AList.update p (AList.update c \<lparr>calc_OwnerPoolName = name, CalculationResultsByNumas = res\<rparr> entries)
              (calculationEntriesMap st)\<rparr>))"
  then have "x < length (blocks st)" by simp
  from wellFormed_id [OF assms(1) this]
  show "\<exists>k<nextUUID (st\<lparr>calculationEntriesMap :=
            AList.update p (AList.update c \<lparr>calc_OwnerPoolName = name, CalculationResultsByNumas = res\<rparr> entries)
              (calculationEntriesMap st)\<rparr>).
          BlockId (blocks (st\<lparr>calculationEntriesMap :=
            AList.update p (AList.update c \<lparr>calc_OwnerPoolName = name, CalculationResultsByNumas = res\<rparr> entries)
              (calculationEntriesMap st)\<rparr>) ! x) = NewUUID k"
    by simp
next
  fix i x
  assume "(i, x) \<in> set (bs (st\<lparr>calculationEntriesMap :=
            AList.update p (AList.update c \<lparr>calc_OwnerPoolName = name, CalculationResultsByNumas = res\<rparr> entries)
              (calculationEntriesMap st)\<rparr>))"
  then have "(i, x) \<in> set (bs st)" by simp
  from wellFormed_bs [OF assms(1) this]
  show "x < length (blocks (st\<lparr>calculationEntriesMap :=
            AList.update p (AList.update c \<lparr>calc_OwnerPoolName = name, CalculationResultsByNumas = res\<rparr> entries)
              (calculationEntriesMap st)\<rparr>))
        \<and> BlockId (blocks (st\<lparr>calculationEntriesMap :=
            AList.update p (AList.update c \<lparr>calc_OwnerPoolName = name, CalculationResultsByNumas = res\<rparr> entries)
              (calculationEntriesMap st)\<rparr>) ! x) = i"
    by simp
next
  fix q es c' info n bl x
  let ?new = "\<lparr>calc_OwnerPoolName = name, CalculationResultsByNumas = res\<rparr>"
  assume q: "(q, es) \<in> set (calculationEntriesMap (st\<lparr>calculationEntriesMap :=
            AList.update p (AList.update c ?new entries) (calculationEntriesMap st)\<rparr>))"
    and c': "(c', info) \<in> set es" and n: "(n, bl) \<in> set (CalculationResultsByNumas info)"
    and x: "x \<in> set bl"
  from q have "(q, es) = (p, AList.update c ?new entries) \<or> (q, es) \<in> set (calculationEntriesMap st)"
    using set_update_subset [of p "AList.update c ?new entries" "calculationEntriesMap st"] by auto
  then have "x < length (blocks st)"
  proof
    assume "(q, es) \<in> set (calculationEntriesMap st)"
    from wellFormed_entry [OF assms(1) this c' n x] show ?thesis .
  next
    assume "(q, es) = (p, AList.update c ?new entries)"
    with c' have "(c', info) = (c, ?new) \<or> (c', info) \<in> set entries"
      using set_update_subset [of c ?new entries] by auto
    then show ?thesis
    proof
      assume "(c', info) = (c, ?new)"
      with n have "(n, bl) \<in> set res" by simp
      with assms(2) x show ?thesis by auto
    next
      assume in_e: "(c', info) \<in> set entries"
      show ?thesis
      proof (cases "map_of (calculationEntriesMap st) p")
        case None
        with assms(3) in_e show ?thesis by simp
      next
        case (Some e)
        with assms(3) have "entries = e" by simp
        with Some have "(p, entries) \<in> set (calculationEntriesMap st)"
          by (simp add: map_of_SomeD)
        from wellFormed_entry [OF assms(1) this in_e n x] show ?thesis .
      qed
    qed
  qed
  then show "x < length (blocks (st\<lparr>calculationEntriesMap :=
            AList.update p (AList.update c ?new entries) (calculationEntriesMap st)\<rparr>))"
    by simp
qed

lemma map_of_split:
  "distinct (map fst l) \<Longrightarrow> map_of l n = Some v \<Longrightarrow>
   \<exists>pre post. l = pre @ (n, v) # post \<and> n \<notin> fst ` set pre \<and> n \<notin> fst ` set post"
proof -
  assume d: "distinct (map fst l)" and m: "map_of l n = Some v"
  from m have "(n, v) \<in> set l" by (rule map_of_SomeD)
  then obtain pre post where l: "l = pre @ (n, v) # post"
    by (auto simp add: in_set_conv_decomp)
  with d have "n \<notin> fst ` set pre \<and> n \<notin> fst ` set post" by auto
  with l show ?thesis by blast
qed

lemma getNumaCalculationResult_update_entry:
  "getNumaCalculationResult (AList.update p entries m) p' c' n =
     (if p' = p
      then (case map_of entries c' of None \<Rightarrow> None
            | Some i \<Rightarrow> map_of (CalculationResultsByNumas i) n)
      else getNumaCalculationResult m p' c' n)"
  by (simp add: getNumaCalculationResult_def AList.update_conv')

lemma assemblePodEntries_first:
  assumes "map_of (calculationEntriesMap st) podUID = None"
    and "IsDedicatedNumaBinding ci"
    and "fold (assemblePodNuma podUID ci) (TopologyAwareAssignments ci) ([], st) = (res, stC)"
    and "wellFormed stC"
    and "calculationEntriesMap stC = calculationEntriesMap st"
    and "\<forall>(k, bl) \<in> set res. \<forall>x \<in> set bl. x < length (blocks stC)"
  shows "\<exists>st1. assemblePodEntries st podUID ci = (st1, None)
      \<and> wellFormed st1 \<and> blocks st1 = blocks stC \<and> nextUUID st1 = nextUUID stC
      \<and> bs st1 = bs stC
      \<and> (\<forall>p' c' n'. getNumaCalculationResult (calculationEntriesMap st1) p' c' n' =
            (if p' = podUID
             then (if c' = ContainerName ci then map_of res n' else None)
             else getNumaCalculationResult (calculationEntriesMap st) p' c' n'))
      \<and> (\<forall>p'. p' \<noteq> podUID \<longrightarrow>
            map_of (calculationEntriesMap st1) p' = map_of (calculationEntriesMap st) p')"
proof -
  let ?info = "\<lparr>calc_OwnerPoolName = publishedOwnerPoolName ci, CalculationResultsByNumas = res\<rparr>"
  let ?st1 = "stC\<lparr>calculationEntriesMap :=
            AList.update podUID (AList.update (ContainerName ci) ?info [])
              (calculationEntriesMap stC)\<rparr>"
  have none: "map_of (calculationEntriesMap stC) podUID = None"
    using assms(1,5) by simp
  have eq: "assemblePodEntries st podUID ci = (?st1, None)"
    using assemblePodEntries_dedicated [OF assms(2,3)] by (simp add: none)
  have e: "[] = (case map_of (calculationEntriesMap stC) podUID of None \<Rightarrow> [] | Some e \<Rightarrow> e)"
    by (simp add: none)
  have wf1: "wellFormed ?st1"
    by (rule wellFormed_entries_update [OF assms(4,6) e])
  have g: "\<forall>p' c' n'. getNumaCalculationResult (calculationEntriesMap ?st1) p' c' n' =
            (if p' = podUID
             then (if c' = ContainerName ci then map_of res n' else None)
             else getNumaCalculationResult (calculationEntriesMap st) p' c' n')"
    by (simp add: getNumaCalculationResult_update_entry assms(5))
  have m: "\<forall>p'. p' \<noteq> podUID \<longrightarrow>
            map_of (calculationEntriesMap ?st1) p' = map_of (calculationEntriesMap st) p'"
    by (simp add: AList.update_conv' assms(5))
  from eq wf1 g m show ?thesis
    by (intro exI [of _ ?st1]) simp
qed

text \<open>The first container of a pod claims the free block of the reclaimed pool.\<close>

lemma first_container_claims:
  assumes "wellFormed st" and "map_of (calculationEntriesMap st) podUID = None"
    and "IsDedicatedNumaBinding ci"
    and "distinct (map fst (TopologyAwareAssignments ci))"
    and "map_of (TopologyAwareAssignments ci) n = Some cpuset"
    and "getNumaCalculationResult (calculationEntriesMap st) PoolNameReclaim FakedContainerName n
           = Some [r]"
    and "OverlapTargets (blocks st ! r) = []"
    and "map_of (bs st) (BlockId (blocks st ! r)) = Some r"
    and "\<forall>n' bl x. n' \<noteq> n \<longrightarrow>
           getNumaCalculationResult (calculationEntriesMap st) PoolNameReclaim FakedContainerName n'
             = Some bl \<longrightarrow> x \<in> set bl \<longrightarrow>
           BlockId (blocks st ! x) \<noteq> BlockId (blocks st ! r)"
  shows "\<exists>b st1. assemblePodEntries st podUID ci = (st1, None)
      \<and> wellFormed st1 \<and> grows st st1 \<and> b < length (blocks st1)
      \<and> (\<forall>p' c' n'. p' \<noteq> podUID \<longrightarrow>
            getNumaCalculationResult (calculationEntriesMap st1) p' c' n' =
            getNumaCalculationResult (calculationEntriesMap st) p' c' n')
      \<and> (\<forall>p'. p' \<noteq> podUID \<longrightarrow>
            map_of (calculationEntriesMap st1) p' = map_of (calculationEntriesMap st) p')
      \<and> getNumaCalculationResult (calculationEntriesMap st1) podUID (ContainerName ci) n = Some [b]
      \<and> Result (blocks st1 ! b) = word_of_int (Size cpuset)
      \<and> BlockId (blocks st1 ! r) \<in> set (OverlapTargets (blocks st1 ! b))
      \<and> BlockId (blocks st1 ! b) \<in> set (OverlapTargets (blocks st1 ! r))"
proof -
  have r: "r < length (blocks st)"
    using wellFormed_result [OF assms(1,6)] by simp
  from map_of_split [OF assms(4,5)] obtain pre post where
    l: "TopologyAwareAssignments ci = pre @ (n, cpuset) # post"
    and npre: "n \<notin> fst ` set pre" and npost: "n \<notin> fst ` set post"
    by blast
  have val0: "\<forall>(k, bl) \<in> set ([] :: (int \<times> nat list) list). \<forall>x \<in> set bl. x < length (blocks st)"
    by simp
  \<comment> \<open>the indices before \<open>n\<close>: the block stays free\<close>
  from fold_assemblePodNuma_first [OF assms(1,2) val0, of ci pre]
  obtain resA stA where
    fA: "fold (assemblePodNuma podUID ci) pre ([], st) = (resA, stA)"
    and wfA: "wellFormed stA" and gA: "grows st stA"
    and eA: "calculationEntriesMap stA = calculationEntriesMap st"
    and valA: "\<forall>(k, bl) \<in> set resA. \<forall>x \<in> set bl. x < length (blocks stA)"
    and frA: "\<forall>r < length (blocks st).
            (\<forall>n' bl0 x. n' \<in> fst ` set pre \<longrightarrow>
                getNumaCalculationResult (calculationEntriesMap st) PoolNameReclaim
                  FakedContainerName n' = Some bl0 \<longrightarrow> x \<in> set bl0 \<longrightarrow>
                BlockId (blocks st ! x) \<noteq> BlockId (blocks st ! r)) \<longrightarrow>
            blocks stA ! r = blocks st ! r
            \<and> map_of (bs stA) (BlockId (blocks st ! r)) = map_of (bs st) (BlockId (blocks st ! r))"
    by (elim exE conjE) (rule that)
  have "\<forall>n' bl0 x. n' \<in> fst ` set pre \<longrightarrow>
                getNumaCalculationResult (calculationEntriesMap st) PoolNameReclaim
                  FakedContainerName n' = Some bl0 \<longrightarrow> x \<in> set bl0 \<longrightarrow>
                BlockId (blocks st ! x) \<noteq> BlockId (blocks st ! r)"
  proof (intro allI impI)
    fix n' bl0 x
    assume "n' \<in> fst ` set pre"
      and g: "getNumaCalculationResult (calculationEntriesMap st) PoolNameReclaim
                  FakedContainerName n' = Some bl0" and x: "x \<in> set bl0"
    with npre have "n' \<noteq> n" by auto
    with assms(9) g x show "BlockId (blocks st ! x) \<noteq> BlockId (blocks st ! r)" by blast
  qed
  with frA r have rA: "blocks stA ! r = blocks st ! r"
    and mA: "map_of (bs stA) (BlockId (blocks st ! r)) = map_of (bs st) (BlockId (blocks st ! r))"
    by blast+
  \<comment> \<open>the index \<open>n\<close>: the block is claimed\<close>
  have pA: "map_of (calculationEntriesMap stA) podUID = None" using assms(2) by (simp add: eA)
  have recA: "getNumaCalculationResult (calculationEntriesMap stA) PoolNameReclaim
                FakedContainerName n = Some [r]"
    using assms(6) by (simp add: eA)
  have freeA: "OverlapTargets (blocks stA ! r) = []" using assms(7) by (simp add: rA)
  have regA: "map_of (bs stA) (BlockId (blocks stA ! r)) = Some r"
    using assms(8) by (simp add: rA mA)
  from assemblePodNuma_claim [OF wfA pA recA freeA regA, of ci cpuset resA]
  obtain stB where
    sB: "assemblePodNuma podUID ci (n, cpuset) (resA, stA) =
           (AList.update n [length (blocks stA)] resA, stB)"
    and wfB: "wellFormed stB" and gB: "grows stA stB"
    and eB: "calculationEntriesMap stB = calculationEntriesMap stA"
    and lB: "length (blocks stB) = Suc (length (blocks stA))"
    and newB: "blocks stB ! length (blocks stA) =
          \<lparr>Result = word_of_int (Size cpuset), OverlapTargets = [BlockId (blocks stA ! r)],
           BlockId = NewUUID (nextUUID stA)\<rparr>"
    and oldB: "OverlapTargets (blocks stB ! r) = [NewUUID (nextUUID stA)]"
    by (elim exE conjE) (rule that)
  define b where "b = length (blocks stA)"
  let ?resB = "AList.update n [b] resA"
  have bB: "b < length (blocks stB)" by (simp add: b_def lB)
  have rB: "r < length (blocks stB)"
    using r gA gB by (auto intro: grows_length)
  have valB: "\<forall>(k, bl) \<in> set ?resB. \<forall>x \<in> set bl. x < length (blocks stB)"
  proof (clarify)
    fix k bl x
    assume "(k, bl) \<in> set ?resB" and x: "x \<in> set bl"
    then have "(k, bl) = (n, [b]) \<or> (k, bl) \<in> set resA"
      using set_update_subset [of n "[b]" resA] by auto
    then show "x < length (blocks stB)"
    proof
      assume "(k, bl) = (n, [b])" with x bB show ?thesis by simp
    next
      assume "(k, bl) \<in> set resA"
      with valA x have "x < length (blocks stA)" by auto
      then show ?thesis using gB by (rule grows_length [rotated])
    qed
  qed
  \<comment> \<open>the indices after \<open>n\<close>\<close>
  have pB: "map_of (calculationEntriesMap stB) podUID = None" using pA by (simp add: eB)
  from fold_assemblePodNuma_first [OF wfB pB valB, of ci post]
  obtain resC stC where
    fC: "fold (assemblePodNuma podUID ci) post (?resB, stB) = (resC, stC)"
    and wfC: "wellFormed stC" and gC: "grows stB stC"
    and eC: "calculationEntriesMap stC = calculationEntriesMap stB"
    and valC: "\<forall>(k, bl) \<in> set resC. \<forall>x \<in> set bl. x < length (blocks stC)"
    and oC: "\<forall>k. k \<notin> fst ` set post \<longrightarrow> map_of resC k = map_of ?resB k"
    by (elim exE conjE) (rule that)
  have resn: "map_of resC n = Some [b]"
    using oC npost by (simp add: AList.update_conv')
  have fold_all: "fold (assemblePodNuma podUID ci) (TopologyAwareAssignments ci) ([], st) = (resC, stC)"
    by (simp add: l fA sB fC [unfolded b_def])
  have eCst: "calculationEntriesMap stC = calculationEntriesMap st" by (simp add: eC eB eA)
  from assemblePodEntries_first [OF assms(2,3) fold_all wfC eCst valC]
  obtain st1 where
    a1: "assemblePodEntries st podUID ci = (st1, None)"
    and wf1: "wellFormed st1" and b1: "blocks st1 = blocks stC"
    and u1: "nextUUID st1 = nextUUID stC"
    and g1: "\<forall>p' c' n'. getNumaCalculationResult (calculationEntriesMap st1) p' c' n' =
            (if p' = podUID
             then (if c' = ContainerName ci then map_of resC n' else None)
             else getNumaCalculationResult (calculationEntriesMap st) p' c' n')"
    and m1: "\<forall>p'. p' \<noteq> podUID \<longrightarrow>
            map_of (calculationEntriesMap st1) p' = map_of (calculationEntriesMap st) p'"
    by (elim exE conjE) (rule that)
  have gAC: "grows stA stC" by (rule grows_trans [OF gB gC])
  have g1': "grows st st1"
    using grows_trans [OF gA gAC] by (simp add: grows_def b1 u1)
  have rA': "r < length (blocks stA)" using r gA by (rule grows_length [rotated])
  have b_lt: "b < length (blocks st1)"
    using grows_length [OF gC bB] by (simp add: b1)
  have gn: "getNumaCalculationResult (calculationEntriesMap st1) podUID (ContainerName ci) n = Some [b]"
    using g1 resn by simp
  have res_b: "Result (blocks st1 ! b) = word_of_int (Size cpuset)"
    using grows_Result [OF gC bB] newB by (simp add: b1 b_def)
  have id_r: "BlockId (blocks st1 ! r) = BlockId (blocks stA ! r)"
    using grows_BlockId [OF gAC rA'] by (simp add: b1)
  have id_b: "BlockId (blocks st1 ! b) = NewUUID (nextUUID stA)"
    using grows_BlockId [OF gC bB] newB by (simp add: b1 b_def)
  have "BlockId (blocks stA ! r) \<in> set (OverlapTargets (blocks stB ! b))"
    using newB by (simp add: b_def)
  from grows_targets [OF gC bB this]
  have t_b: "BlockId (blocks st1 ! r) \<in> set (OverlapTargets (blocks st1 ! b))"
    by (simp add: b1 id_r [unfolded b1])
  have "NewUUID (nextUUID stA) \<in> set (OverlapTargets (blocks stB ! r))"
    using oldB by simp
  from grows_targets [OF gC rB this]
  have t_r: "BlockId (blocks st1 ! b) \<in> set (OverlapTargets (blocks st1 ! r))"
    by (simp add: b1 id_b [unfolded b1])
  have others: "\<forall>p' c' n'. p' \<noteq> podUID \<longrightarrow>
            getNumaCalculationResult (calculationEntriesMap st1) p' c' n' =
            getNumaCalculationResult (calculationEntriesMap st) p' c' n'"
    using g1 by simp
  from a1 wf1 g1' b_lt others m1 gn res_b t_b t_r show ?thesis
    by (intro exI [of _ b] exI [of _ st1]) simp
qed

lemma later_container_skipped:
  assumes "wellFormed st" and "map_of (calculationEntriesMap st) podUID = None"
    and "IsDedicatedNumaBinding ci"
    and "distinct (map fst (TopologyAwareAssignments ci))"
    and "map_of (TopologyAwareAssignments ci) n = Some cpuset"
    and "getNumaCalculationResult (calculationEntriesMap st) PoolNameReclaim FakedContainerName n
           = Some [r]"
    and "OverlapTargets (blocks st ! r) \<noteq> []"
  shows "\<exists>st1. assemblePodEntries st podUID ci = (st1, None)
      \<and> wellFormed st1 \<and> grows st st1
      \<and> (\<forall>p' c' n'. p' \<noteq> podUID \<longrightarrow>
            getNumaCalculationResult (calculationEntriesMap st1) p' c' n' =
            getNumaCalculationResult (calculationEntriesMap st) p' c' n')
      \<and> getNumaCalculationResult (calculationEntriesMap st1) podUID (ContainerName ci) n = Some []"
proof -
  have r: "r < length (blocks st)"
    using wellFormed_result [OF assms(1,6)] by simp
  from map_of_split [OF assms(4,5)] obtain pre post where
    l: "TopologyAwareAssignments ci = pre @ (n, cpuset) # post"
    and npost: "n \<notin> fst ` set post"
    by blast
  have val0: "\<forall>(k, bl) \<in> set ([] :: (int \<times> nat list) list). \<forall>x \<in> set bl. x < length (blocks st)"
    by simp
  from fold_assemblePodNuma_first [OF assms(1,2) val0, of ci pre]
  obtain resA stA where
    fA: "fold (assemblePodNuma podUID ci) pre ([], st) = (resA, stA)"
    and wfA: "wellFormed stA" and gA: "grows st stA"
    and eA: "calculationEntriesMap stA = calculationEntriesMap st"
    and valA: "\<forall>(k, bl) \<in> set resA. \<forall>x \<in> set bl. x < length (blocks stA)"
    by (elim exE conjE) (rule that)
  from assms(7) obtain t where "t \<in> set (OverlapTargets (blocks st ! r))"
    by (cases "OverlapTargets (blocks st ! r)") auto
  from grows_targets [OF gA r this] have takenA: "OverlapTargets (blocks stA ! r) \<noteq> []"
    by auto
  have pA: "map_of (calculationEntriesMap stA) podUID = None" using assms(2) by (simp add: eA)
  have recA: "getNumaCalculationResult (calculationEntriesMap stA) PoolNameReclaim
                FakedContainerName n = Some [r]"
    using assms(6) by (simp add: eA)
  have sB: "assemblePodNuma podUID ci (n, cpuset) (resA, stA) = (AList.update n [] resA, stA)"
    by (rule assemblePodNuma_skip [OF pA recA takenA])
  let ?resB = "AList.update n [] resA"
  have valB: "\<forall>(k, bl) \<in> set ?resB. \<forall>x \<in> set bl. x < length (blocks stA)"
  proof (clarify)
    fix k bl x
    assume "(k, bl) \<in> set ?resB" and x: "x \<in> set bl"
    then have "(k, bl) = (n, []) \<or> (k, bl) \<in> set resA"
      using set_update_subset [of n "[]" resA] by auto
    with valA x show "x < length (blocks stA)" by auto
  qed
  from fold_assemblePodNuma_first [OF wfA pA valB, of ci post]
  obtain resC stC where
    fC: "fold (assemblePodNuma podUID ci) post (?resB, stA) = (resC, stC)"
    and wfC: "wellFormed stC" and gC: "grows stA stC"
    and eC: "calculationEntriesMap stC = calculationEntriesMap stA"
    and valC: "\<forall>(k, bl) \<in> set resC. \<forall>x \<in> set bl. x < length (blocks stC)"
    and oC: "\<forall>k. k \<notin> fst ` set post \<longrightarrow> map_of resC k = map_of ?resB k"
    by (elim exE conjE) (rule that)
  have resn: "map_of resC n = Some []"
    using oC npost by (simp add: AList.update_conv')
  have fold_all: "fold (assemblePodNuma podUID ci) (TopologyAwareAssignments ci) ([], st) = (resC, stC)"
    by (simp add: l fA sB fC)
  have eCst: "calculationEntriesMap stC = calculationEntriesMap st" by (simp add: eC eA)
  from assemblePodEntries_first [OF assms(2,3) fold_all wfC eCst valC]
  obtain st1 where
    a1: "assemblePodEntries st podUID ci = (st1, None)"
    and wf1: "wellFormed st1" and b1: "blocks st1 = blocks stC"
    and u1: "nextUUID st1 = nextUUID stC"
    and g1: "\<forall>p' c' n'. getNumaCalculationResult (calculationEntriesMap st1) p' c' n' =
            (if p' = podUID
             then (if c' = ContainerName ci then map_of resC n' else None)
             else getNumaCalculationResult (calculationEntriesMap st) p' c' n')"
    by (elim exE conjE) (rule that)
  have g1': "grows st st1"
    using grows_trans [OF gA gC] by (simp add: grows_def b1 u1)
  have gn: "getNumaCalculationResult (calculationEntriesMap st1) podUID (ContainerName ci) n = Some []"
    using g1 resn by simp
  have others: "\<forall>p' c' n'. p' \<noteq> podUID \<longrightarrow>
            getNumaCalculationResult (calculationEntriesMap st1) p' c' n' =
            getNumaCalculationResult (calculationEntriesMap st) p' c' n'"
    using g1 by simp
  from a1 wf1 g1' others gn show ?thesis
    by (intro exI [of _ st1]) simp
qed

subsection \<open>Two dedicated containers and one block of the reclaimed pool\<close>

lemma pooled_eq:
  "pooled = \<lparr>blocks = [\<lparr>Result = 4, OverlapTargets = [], BlockId = ''b''\<rparr>], nextUUID = 1,
     bs = [(''b'', 0)],
     calculationEntriesMap =
       [(''reclaim'', [('''', \<lparr>calc_OwnerPoolName = ''reclaim'',
                                CalculationResultsByNumas = [(0, [0])]\<rparr>)])]\<rparr>"
  by code_simp

text \<open>
  C1, as stated, fails in its last part: the container that comes second has no block at
  all on the NUMA index. Here two dedicated NUMA-bound containers of pods pod-a and pod-b,
  two CPUs each on NUMA index 0, meet the one free block of the reclaimed pool there: the
  first gets block 1, joined to the reclaimed block; the entry of the second is empty.
\<close>

theorem double_claim_counterexample:
  "getNumaCalculationResult (calculationEntriesMap afterSecond) ''pod-a'' ''main'' 0 = Some [1]
   \<and> OverlapTargets (blocks afterSecond ! 1) = [BlockId (blocks afterSecond ! 0)]
   \<and> getNumaCalculationResult (calculationEntriesMap afterSecond) PoolNameReclaim FakedContainerName 0
       = Some [0]
   \<and> getNumaCalculationResult (calculationEntriesMap afterSecond) ''pod-b'' ''main'' 0 = Some []"
  by code_simp

text \<open>
  C1, amended. Let the reclaimed pool have one block on NUMA index \<open>n\<close>, registered and with
  no overlap target, and let two dedicated NUMA-bound containers of two pods that have no
  entry yet both have CPUs on \<open>n\<close>. After both are assembled, the first has exactly one
  block on \<open>n\<close>, of its CPU set's cardinality, and that block and the reclaimed pool's
  block name each other as overlap targets; the second has an entry for \<open>n\<close> with no block:
  none is allocated for it and nothing is joined.
\<close>

theorem reclaimed_block_claimed_once:
  assumes "wellFormed st"
    and "podUID1 \<noteq> podUID2"
    and "map_of (calculationEntriesMap st) podUID1 = None"
    and "map_of (calculationEntriesMap st) podUID2 = None"
    and "IsDedicatedNumaBinding ci1" and "IsDedicatedNumaBinding ci2"
    and "distinct (map fst (TopologyAwareAssignments ci1))"
    and "map_of (TopologyAwareAssignments ci1) n = Some cpuset1"
    and "distinct (map fst (TopologyAwareAssignments ci2))"
    and "map_of (TopologyAwareAssignments ci2) n = Some cpuset2"
    and "getNumaCalculationResult (calculationEntriesMap st) PoolNameReclaim FakedContainerName n
           = Some [r]"
    and "OverlapTargets (blocks st ! r) = []"
    and "map_of (bs st) (BlockId (blocks st ! r)) = Some r"
    and "\<forall>n' bl x. n' \<noteq> n \<longrightarrow>
           getNumaCalculationResult (calculationEntriesMap st) PoolNameReclaim FakedContainerName n'
             = Some bl \<longrightarrow> x \<in> set bl \<longrightarrow>
           BlockId (blocks st ! x) \<noteq> BlockId (blocks st ! r)"
  shows "(\<exists>b. getNumaCalculationResult
                (calculationEntriesMap
                   (fst (assemblePodEntries (fst (assemblePodEntries st podUID1 ci1)) podUID2 ci2)))
                podUID1 (ContainerName ci1) n = Some [b]
            \<and> Result (blocks (fst (assemblePodEntries (fst (assemblePodEntries st podUID1 ci1))
                                     podUID2 ci2)) ! b) = word_of_int (Size cpuset1)
            \<and> BlockId (blocks (fst (assemblePodEntries (fst (assemblePodEntries st podUID1 ci1))
                                      podUID2 ci2)) ! r)
                \<in> set (OverlapTargets
                     (blocks (fst (assemblePodEntries (fst (assemblePodEntries st podUID1 ci1))
                                     podUID2 ci2)) ! b))
            \<and> BlockId (blocks (fst (assemblePodEntries (fst (assemblePodEntries st podUID1 ci1))
                                      podUID2 ci2)) ! b)
                \<in> set (OverlapTargets
                     (blocks (fst (assemblePodEntries (fst (assemblePodEntries st podUID1 ci1))
                                     podUID2 ci2)) ! r)))
         \<and> getNumaCalculationResult
              (calculationEntriesMap
                 (fst (assemblePodEntries (fst (assemblePodEntries st podUID1 ci1)) podUID2 ci2)))
              podUID2 (ContainerName ci2) n = Some []"
proof -
  from first_container_claims [OF assms(1,3,5,7,8,11,12,13,14)]
  obtain b st1 where
    a1: "assemblePodEntries st podUID1 ci1 = (st1, None)"
    and wf1: "wellFormed st1" and g1: "grows st st1" and b1: "b < length (blocks st1)"
    and o1: "\<forall>p' c' n'. p' \<noteq> podUID1 \<longrightarrow>
            getNumaCalculationResult (calculationEntriesMap st1) p' c' n' =
            getNumaCalculationResult (calculationEntriesMap st) p' c' n'"
    and m1: "\<forall>p'. p' \<noteq> podUID1 \<longrightarrow>
            map_of (calculationEntriesMap st1) p' = map_of (calculationEntriesMap st) p'"
    and n1: "getNumaCalculationResult (calculationEntriesMap st1) podUID1 (ContainerName ci1) n = Some [b]"
    and r1: "Result (blocks st1 ! b) = word_of_int (Size cpuset1)"
    and tb1: "BlockId (blocks st1 ! r) \<in> set (OverlapTargets (blocks st1 ! b))"
    and tr1: "BlockId (blocks st1 ! b) \<in> set (OverlapTargets (blocks st1 ! r))"
    by (elim exE conjE) (rule that)
  have r: "r < length (blocks st)"
    using wellFormed_result [OF assms(1,11)] by simp
  have rl1: "r < length (blocks st1)" using r g1 by (rule grows_length [rotated])
  have neR: "PoolNameReclaim \<noteq> podUID1"
    using assms(3,11) by (auto simp add: getNumaCalculationResult_def)
  have p2: "map_of (calculationEntriesMap st1) podUID2 = None"
    using m1 assms(2,4) by simp
  have rec1: "getNumaCalculationResult (calculationEntriesMap st1) PoolNameReclaim
                FakedContainerName n = Some [r]"
    using o1 neR assms(11) by simp
  have taken1: "OverlapTargets (blocks st1 ! r) \<noteq> []"
    using tr1 by auto
  from later_container_skipped [OF wf1 p2 assms(6,9,10) rec1 taken1]
  obtain st2 where
    a2: "assemblePodEntries st1 podUID2 ci2 = (st2, None)"
    and g2: "grows st1 st2"
    and o2: "\<forall>p' c' n'. p' \<noteq> podUID2 \<longrightarrow>
            getNumaCalculationResult (calculationEntriesMap st2) p' c' n' =
            getNumaCalculationResult (calculationEntriesMap st1) p' c' n'"
    and n2: "getNumaCalculationResult (calculationEntriesMap st2) podUID2 (ContainerName ci2) n = Some []"
    by (elim exE conjE) (rule that)
  have f: "fst (assemblePodEntries (fst (assemblePodEntries st podUID1 ci1)) podUID2 ci2) = st2"
    by (simp add: a1 a2)
  have c1: "getNumaCalculationResult (calculationEntriesMap st2) podUID1 (ContainerName ci1) n = Some [b]"
    using o2 assms(2) n1 by simp
  have c2: "Result (blocks st2 ! b) = word_of_int (Size cpuset1)"
    using grows_Result [OF g2 b1] r1 by simp
  have c3: "BlockId (blocks st2 ! r) \<in> set (OverlapTargets (blocks st2 ! b))"
    using grows_targets [OF g2 b1 tb1] grows_BlockId [OF g2 rl1] by simp
  have c4: "BlockId (blocks st2 ! b) \<in> set (OverlapTargets (blocks st2 ! r))"
    using grows_targets [OF g2 rl1 tr1] grows_BlockId [OF g2 b1] by simp
  from c1 c2 c3 c4 n2 show ?thesis
    unfolding f by blast
qed

theorem reclaimed_block_claimed_once_witness:
  "wellFormed pooled
   \<and> getNumaCalculationResult (calculationEntriesMap pooled) PoolNameReclaim FakedContainerName 0
       = Some [0]
   \<and> OverlapTargets (blocks pooled ! 0) = []
   \<and> (\<exists>b. getNumaCalculationResult (calculationEntriesMap afterSecond) ''pod-a'' ''main'' 0 = Some [b]
          \<and> Result (blocks afterSecond ! b) = 2
          \<and> BlockId (blocks afterSecond ! 0) \<in> set (OverlapTargets (blocks afterSecond ! b))
          \<and> BlockId (blocks afterSecond ! b) \<in> set (OverlapTargets (blocks afterSecond ! 0)))
   \<and> getNumaCalculationResult (calculationEntriesMap afterSecond) ''pod-b'' ''main'' 0 = Some []"
proof -
  have h1: "wellFormed pooled" by code_simp
  have h2: "''pod-a'' \<noteq> ''pod-b''" by simp
  have h3: "map_of (calculationEntriesMap pooled) ''pod-a'' = None" by code_simp
  have h4: "map_of (calculationEntriesMap pooled) ''pod-b'' = None" by code_simp
  have h5: "IsDedicatedNumaBinding (dedicatedContainer ''pod-a'' ''main'')"
    by (simp add: IsDedicatedNumaBinding_def dedicatedContainer_def
        PodAnnotationQoSLevelDedicatedCores_def)
  have h6: "IsDedicatedNumaBinding (dedicatedContainer ''pod-b'' ''main'')"
    by (simp add: IsDedicatedNumaBinding_def dedicatedContainer_def
        PodAnnotationQoSLevelDedicatedCores_def)
  have h7: "distinct (map fst (TopologyAwareAssignments (dedicatedContainer ''pod-a'' ''main'')))"
    by (simp add: dedicatedContainer_def)
  have h8: "map_of (TopologyAwareAssignments (dedicatedContainer ''pod-a'' ''main'')) 0 = Some {|0, 1|}"
    by (simp add: dedicatedContainer_def)
  have h9: "distinct (map fst (TopologyAwareAssignments (dedicatedContainer ''pod-b'' ''main'')))"
    by (simp add: dedicatedContainer_def)
  have h10: "map_of (TopologyAwareAssignments (dedicatedContainer ''pod-b'' ''main'')) 0 = Some {|0, 1|}"
    by (simp add: dedicatedContainer_def)
  have h11: "getNumaCalculationResult (calculationEntriesMap pooled) PoolNameReclaim
               FakedContainerName 0 = Some [0]"
    by code_simp
  have h12: "OverlapTargets (blocks pooled ! 0) = []" by code_simp
  have h13: "map_of (bs pooled) (BlockId (blocks pooled ! 0)) = Some 0" by code_simp
  have h14: "\<forall>n' bl x. n' \<noteq> 0 \<longrightarrow>
           getNumaCalculationResult (calculationEntriesMap pooled) PoolNameReclaim
             FakedContainerName n' = Some bl \<longrightarrow> x \<in> set bl \<longrightarrow>
           BlockId (blocks pooled ! x) \<noteq> BlockId (blocks pooled ! 0)"
    by (simp add: pooled_eq getNumaCalculationResult_def PoolNameReclaim_def FakedContainerName_def)
  have s: "Size {|0, 1|} = 2" by code_simp
  have c: "ContainerName (dedicatedContainer ''pod-a'' ''main'') = ''main''"
    "ContainerName (dedicatedContainer ''pod-b'' ''main'') = ''main''"
    by (simp_all add: dedicatedContainer_def)
  from reclaimed_block_claimed_once [OF h1 h2 h3 h4 h5 h6 h7 h8 h9 h10 h11 h12 h13 h14]
  have "(\<exists>b. getNumaCalculationResult (calculationEntriesMap afterSecond) ''pod-a'' ''main'' 0 = Some [b]
          \<and> Result (blocks afterSecond ! b) = 2
          \<and> BlockId (blocks afterSecond ! 0) \<in> set (OverlapTargets (blocks afterSecond ! b))
          \<and> BlockId (blocks afterSecond ! b) \<in> set (OverlapTargets (blocks afterSecond ! 0)))
   \<and> getNumaCalculationResult (calculationEntriesMap afterSecond) ''pod-b'' ''main'' 0 = Some []"
    by (simp add: afterSecond_def afterFirst_def s c)
  with h1 h11 h12 show ?thesis by blast
qed

subsection \<open>Sidecars\<close>

lemma fold_reuseBlock:
  assumes "wellFormed st" and "\<forall>x \<in> set sb. x < length (blocks st)"
  shows "\<exists>new st'. fold (reuseBlock numaID ci) sb (ncr, st) = (ncr @ new, st')
      \<and> wellFormed st' \<and> grows st st'
      \<and> calculationEntriesMap st' = calculationEntriesMap st
      \<and> nextUUID st' = nextUUID st
      \<and> (\<forall>x \<in> set new. x < length (blocks st'))
      \<and> map (idSize st') new = map (idSize st) sb"
  using assms
proof (induction sb arbitrary: ncr st)
  case Nil
  then show ?case by (simp add: grows_refl)
next
  case (Cons x sb)
  from Cons.prems have x: "x < length (blocks st)" by simp
  from reuseBlock_step [OF Cons.prems(1) x, of numaID ci ncr]
  obtain st1 where
    s: "reuseBlock numaID ci x (ncr, st) = (ncr @ [length (blocks st)], st1)"
    and wf1: "wellFormed st1"
    and e1: "calculationEntriesMap st1 = calculationEntriesMap st"
    and u1: "nextUUID st1 = nextUUID st"
    and b1: "blocks st1 = blocks st @ [\<lparr>Result = Result (blocks st ! x), OverlapTargets = [],
                                    BlockId = BlockId (blocks st ! x)\<rparr>]"
    by (elim exE conjE) (rule that)
  have g1: "grows st st1" by (simp add: grows_def b1 u1 nth_append)
  have v1: "\<forall>y \<in> set sb. y < length (blocks st1)"
    using Cons.prems(2) by (auto simp add: b1)
  from Cons.IH [OF wf1 v1, of "ncr @ [length (blocks st)]"]
  obtain new st' where
    f: "fold (reuseBlock numaID ci) sb (ncr @ [length (blocks st)], st1)
          = ((ncr @ [length (blocks st)]) @ new, st')"
    and wf': "wellFormed st'" and g': "grows st1 st'"
    and e': "calculationEntriesMap st' = calculationEntriesMap st1"
    and u': "nextUUID st' = nextUUID st1"
    and v': "\<forall>x \<in> set new. x < length (blocks st')"
    and i': "map (idSize st') new = map (idSize st1) sb"
    by (elim exE conjE) (rule that)
  let ?a = "length (blocks st)"
  have a1: "?a < length (blocks st1)" by (simp add: b1)
  have ia: "idSize st' ?a = idSize st x"
    using grows_idSize [OF g' a1] by (simp add: idSize_def b1)
  have isb: "map (idSize st1) sb = map (idSize st) sb"
    using Cons.prems(2) by (simp add: idSize_def b1 nth_append)
  have eq: "fold (reuseBlock numaID ci) (x # sb) (ncr, st) = (ncr @ (?a # new), st')"
    by (simp add: s f)
  have val: "\<forall>y \<in> set (?a # new). y < length (blocks st')"
    using v' grows_length [OF g' a1] by simp
  have ids: "map (idSize st') (?a # new) = map (idSize st) (x # sb)"
    by (simp add: ia i' isb)
  from eq wf' grows_trans [OF g1 g'] e' e1 u' u1 val ids show ?case
    by (intro exI [of _ "?a # new"] exI [of _ st']) simp
qed

lemma find_Some_mem: "find P xs = Some x \<Longrightarrow> x \<in> set xs"
  by (induction xs) (auto split: if_splits)

text \<open>
  One NUMA index of a container whose pod already has entries: the blocks are copies of the
  first sibling's that has a result for the index, and no identifier is generated.
\<close>

lemma assemblePodNuma_sidecar:
  assumes "wellFormed st" and "map_of (calculationEntriesMap st) podUID = Some podEntries"
  shows "\<exists>bl st'. assemblePodNuma podUID ci (numaID, cpuset) (res, st) = (AList.update numaID bl res, st')
      \<and> wellFormed st' \<and> grows st st'
      \<and> calculationEntriesMap st' = calculationEntriesMap st
      \<and> nextUUID st' = nextUUID st
      \<and> (\<forall>x \<in> set bl. x < length (blocks st'))
      \<and> (\<forall>c e sb. find (\<lambda>(containerName, containerEntry).
                          map_of (CalculationResultsByNumas containerEntry) numaID \<noteq> None)
                     podEntries = Some (c, e) \<longrightarrow>
              map_of (CalculationResultsByNumas e) numaID = Some sb \<longrightarrow>
              map (idSize st') bl = map (idSize st) sb)"
proof (cases "find (\<lambda>(containerName, containerEntry).
                          map_of (CalculationResultsByNumas containerEntry) numaID \<noteq> None)
                     podEntries")
  case None
  then have "assemblePodNuma podUID ci (numaID, cpuset) (res, st) = (AList.update numaID [] res, st)"
    by (simp add: assemblePodNuma_def assms(2) del: not_None_eq)
  with assms(1) None show ?thesis
    by (intro exI [of _ "[]"] exI [of _ st]) (simp add: grows_refl del: not_None_eq)
next
  case (Some ce)
  obtain c e where ce: "ce = (c, e)" by (cases ce)
  from find_Some_iff [THEN iffD1, OF Some] have "map_of (CalculationResultsByNumas e) numaID \<noteq> None"
    by (auto simp add: ce)
  then obtain sb where sb: "map_of (CalculationResultsByNumas e) numaID = Some sb" by auto
  have "(podUID, podEntries) \<in> set (calculationEntriesMap st)"
    using assms(2) by (rule map_of_SomeD)
  moreover have "(c, e) \<in> set podEntries"
    using find_Some_mem [OF Some] by (simp add: ce)
  moreover have "(numaID, sb) \<in> set (CalculationResultsByNumas e)"
    using sb by (rule map_of_SomeD)
  ultimately have v: "\<forall>x \<in> set sb. x < length (blocks st)"
    using wellFormed_entry [OF assms(1)] by blast
  from fold_reuseBlock [OF assms(1) v, of numaID ci "[]"]
  obtain new st' where
    f: "fold (reuseBlock numaID ci) sb ([], st) = ([] @ new, st')"
    and wf': "wellFormed st'" and g': "grows st st'"
    and e': "calculationEntriesMap st' = calculationEntriesMap st"
    and u': "nextUUID st' = nextUUID st"
    and v': "\<forall>x \<in> set new. x < length (blocks st')"
    and i': "map (idSize st') new = map (idSize st) sb"
    by (elim exE conjE) (rule that)
  have eq: "assemblePodNuma podUID ci (numaID, cpuset) (res, st) = (AList.update numaID new res, st')"
    using f by (simp add: assemblePodNuma_def assms(2) Some ce sb del: not_None_eq)
  from eq wf' g' e' u' v' i' show ?thesis
    by (intro exI [of _ new] exI [of _ st']) (simp add: Some ce sb del: not_None_eq)
qed

lemma fold_assemblePodNuma_sidecar:
  assumes "wellFormed st" and "map_of (calculationEntriesMap st) podUID = Some podEntries"
    and "\<forall>(k, bl) \<in> set res. \<forall>x \<in> set bl. x < length (blocks st)"
  shows "\<exists>res' st'. fold (assemblePodNuma podUID ci) l (res, st) = (res', st')
      \<and> wellFormed st' \<and> grows st st'
      \<and> calculationEntriesMap st' = calculationEntriesMap st
      \<and> nextUUID st' = nextUUID st
      \<and> (\<forall>(k, bl) \<in> set res'. \<forall>x \<in> set bl. x < length (blocks st'))
      \<and> (\<forall>k. k \<notin> fst ` set l \<longrightarrow> map_of res' k = map_of res k)
      \<and> (\<forall>k \<in> fst ` set l. \<exists>bl. map_of res' k = Some bl
            \<and> (\<forall>c e sb. find (\<lambda>(containerName, containerEntry).
                          map_of (CalculationResultsByNumas containerEntry) k \<noteq> None)
                     podEntries = Some (c, e) \<longrightarrow>
              map_of (CalculationResultsByNumas e) k = Some sb \<longrightarrow>
              map (idSize st') bl = map (idSize st) sb))"
  using assms
proof (induction l arbitrary: res st)
  case Nil
  then show ?case by (simp add: grows_refl)
next
  case (Cons a l)
  obtain numaID cpuset where a: "a = (numaID, cpuset)" by (cases a)
  let ?F = "\<lambda>k. find (\<lambda>(containerName, containerEntry).
                          map_of (CalculationResultsByNumas containerEntry) k \<noteq> None) podEntries"
  from assemblePodNuma_sidecar [OF Cons.prems(1,2), of ci numaID cpuset res]
  obtain bl st1 where
    s: "assemblePodNuma podUID ci (numaID, cpuset) (res, st) = (AList.update numaID bl res, st1)"
    and wf1: "wellFormed st1" and g1: "grows st st1"
    and e1: "calculationEntriesMap st1 = calculationEntriesMap st"
    and u1: "nextUUID st1 = nextUUID st"
    and v1: "\<forall>x \<in> set bl. x < length (blocks st1)"
    and i1: "\<forall>c e sb. ?F numaID = Some (c, e) \<longrightarrow>
              map_of (CalculationResultsByNumas e) numaID = Some sb \<longrightarrow>
              map (idSize st1) bl = map (idSize st) sb"
    by (elim exE conjE) (rule that)
  let ?res1 = "AList.update numaID bl res"
  have p1: "map_of (calculationEntriesMap st1) podUID = Some podEntries"
    using Cons.prems(2) by (simp add: e1)
  have val1: "\<forall>(k, bl) \<in> set ?res1. \<forall>x \<in> set bl. x < length (blocks st1)"
  proof (clarify)
    fix k b x
    assume "(k, b) \<in> set ?res1" and x: "x \<in> set b"
    then have "(k, b) = (numaID, bl) \<or> (k, b) \<in> set res"
      using set_update_subset [of numaID bl res] by auto
    then show "x < length (blocks st1)"
    proof
      assume "(k, b) = (numaID, bl)"
      with v1 x show ?thesis by simp
    next
      assume "(k, b) \<in> set res"
      with Cons.prems(3) x have "x < length (blocks st)" by auto
      then show ?thesis using g1 by (rule grows_length [rotated])
    qed
  qed
  from Cons.IH [OF wf1 p1 val1]
  obtain res' st' where
    f: "fold (assemblePodNuma podUID ci) l (?res1, st1) = (res', st')"
    and wf': "wellFormed st'" and g': "grows st1 st'"
    and e': "calculationEntriesMap st' = calculationEntriesMap st1"
    and u': "nextUUID st' = nextUUID st1"
    and val': "\<forall>(k, bl) \<in> set res'. \<forall>x \<in> set bl. x < length (blocks st')"
    and o': "\<forall>k. k \<notin> fst ` set l \<longrightarrow> map_of res' k = map_of ?res1 k"
    and k': "\<forall>k \<in> fst ` set l. \<exists>bl. map_of res' k = Some bl
            \<and> (\<forall>c e sb. ?F k = Some (c, e) \<longrightarrow>
              map_of (CalculationResultsByNumas e) k = Some sb \<longrightarrow>
              map (idSize st') bl = map (idSize st1) sb)"
    by (elim exE conjE) (rule that)
  have eq: "fold (assemblePodNuma podUID ci) (a # l) (res, st) = (res', st')"
    by (simp add: a s f)
  have sibling_valid: "\<And>k c e sb. ?F k = Some (c, e) \<Longrightarrow>
      map_of (CalculationResultsByNumas e) k = Some sb \<Longrightarrow> \<forall>x \<in> set sb. x < length (blocks st)"
  proof -
    fix k c e sb
    assume fk: "?F k = Some (c, e)" and m: "map_of (CalculationResultsByNumas e) k = Some sb"
    have "(podUID, podEntries) \<in> set (calculationEntriesMap st)"
      using Cons.prems(2) by (rule map_of_SomeD)
    moreover have "(c, e) \<in> set podEntries" using find_Some_mem [OF fk] .
    moreover have "(k, sb) \<in> set (CalculationResultsByNumas e)" using m by (rule map_of_SomeD)
    ultimately show "\<forall>x \<in> set sb. x < length (blocks st)"
      using wellFormed_entry [OF Cons.prems(1)] by blast
  qed
  have keys: "\<forall>k \<in> fst ` set (a # l). \<exists>bl. map_of res' k = Some bl
            \<and> (\<forall>c e sb. ?F k = Some (c, e) \<longrightarrow>
              map_of (CalculationResultsByNumas e) k = Some sb \<longrightarrow>
              map (idSize st') bl = map (idSize st) sb)"
  proof
    fix k assume "k \<in> fst ` set (a # l)"
    then have "k \<in> fst ` set l \<or> (k = numaID \<and> k \<notin> fst ` set l)" by (auto simp add: a)
    then show "\<exists>bl. map_of res' k = Some bl
            \<and> (\<forall>c e sb. ?F k = Some (c, e) \<longrightarrow>
              map_of (CalculationResultsByNumas e) k = Some sb \<longrightarrow>
              map (idSize st') bl = map (idSize st) sb)"
    proof
      assume "k \<in> fst ` set l"
      with k' obtain b where b: "map_of res' k = Some b"
        and ib: "\<forall>c e sb. ?F k = Some (c, e) \<longrightarrow>
              map_of (CalculationResultsByNumas e) k = Some sb \<longrightarrow>
              map (idSize st') b = map (idSize st1) sb"
        by blast
      have "\<forall>c e sb. ?F k = Some (c, e) \<longrightarrow>
              map_of (CalculationResultsByNumas e) k = Some sb \<longrightarrow>
              map (idSize st') b = map (idSize st) sb"
      proof (intro allI impI)
        fix c e sb
        assume fk: "?F k = Some (c, e)" and m: "map_of (CalculationResultsByNumas e) k = Some sb"
        from ib fk m have "map (idSize st') b = map (idSize st1) sb" by blast
        moreover have "map (idSize st1) sb = map (idSize st) sb"
          using sibling_valid [OF fk m] grows_idSize [OF g1] by simp
        ultimately show "map (idSize st') b = map (idSize st) sb" by simp
      qed
      with b show ?thesis by blast
    next
      assume kn: "k = numaID \<and> k \<notin> fst ` set l"
      then have "map_of res' k = map_of ?res1 k" and "k = numaID" using o' by blast+
      then have b: "map_of res' k = Some bl" by (simp add: AList.update_conv')
      have eqbl: "map (idSize st') bl = map (idSize st1) bl"
        using v1 grows_idSize [OF g'] by simp
      have "\<forall>c e sb. ?F k = Some (c, e) \<longrightarrow>
              map_of (CalculationResultsByNumas e) k = Some sb \<longrightarrow>
              map (idSize st') bl = map (idSize st) sb"
      proof (intro allI impI)
        fix c e sb
        assume "?F k = Some (c, e)" and "map_of (CalculationResultsByNumas e) k = Some sb"
        with i1 kn have "map (idSize st1) bl = map (idSize st) sb" by blast
        with eqbl show "map (idSize st') bl = map (idSize st) sb" by simp
      qed
      with b show ?thesis by blast
    qed
  qed
  have other: "\<forall>k. k \<notin> fst ` set (a # l) \<longrightarrow> map_of res' k = map_of res k"
    using o' by (simp add: a AList.update_conv')
  from eq wf' grows_trans [OF g1 g'] e' e1 u' u1 val' other keys show ?case
    by (intro exI [of _ res'] exI [of _ st']) simp
qed

lemma assemblePodEntries_first_entry:
  assumes "map_of (calculationEntriesMap st) podUID = None"
    and "IsDedicatedNumaBinding ci"
    and "fold (assemblePodNuma podUID ci) (TopologyAwareAssignments ci) ([], st) = (res, stC)"
    and "calculationEntriesMap stC = calculationEntriesMap st"
  shows "map_of (calculationEntriesMap (fst (assemblePodEntries st podUID ci))) podUID =
     Some [(ContainerName ci,
            \<lparr>calc_OwnerPoolName = publishedOwnerPoolName ci, CalculationResultsByNumas = res\<rparr>)]"
  using assemblePodEntries_dedicated [OF assms(2,3)] assms(1,4)
  by (simp add: AList.update_conv')

lemma assemblePodEntries_sidecar:
  assumes "IsDedicatedNumaBinding ci"
    and "fold (assemblePodNuma podUID ci) (TopologyAwareAssignments ci) ([], st) = (res, stC)"
  shows "\<exists>st2. assemblePodEntries st podUID ci = (st2, None)
      \<and> blocks st2 = blocks stC \<and> nextUUID st2 = nextUUID stC
      \<and> (\<forall>n. getNumaCalculationResult (calculationEntriesMap st2) podUID (ContainerName ci) n
               = map_of res n)"
  using assemblePodEntries_dedicated [OF assms]
  by (simp add: getNumaCalculationResult_update)

text \<open>
  C7. When two dedicated NUMA-bound containers of one pod are assembled one after the other
  (the pod having no entry before), then on every NUMA index that both have CPUs on, the
  blocks of the second are, one by one and in order, of the same identifier and the same
  size as the blocks of the first; and assembling the second generates no identifier.
\<close>

theorem sidecar_reuses_blocks:
  assumes "wellFormed st" and "map_of (calculationEntriesMap st) podUID = None"
    and "IsDedicatedNumaBinding ci1" and "IsDedicatedNumaBinding ci2"
    and "n \<in> fst ` set (TopologyAwareAssignments ci1)"
    and "n \<in> fst ` set (TopologyAwareAssignments ci2)"
  shows "\<exists>bl1 bl2.
      getNumaCalculationResult (calculationEntriesMap (fst (assemblePodEntries st podUID ci1)))
        podUID (ContainerName ci1) n = Some bl1
      \<and> getNumaCalculationResult
          (calculationEntriesMap
             (fst (assemblePodEntries (fst (assemblePodEntries st podUID ci1)) podUID ci2)))
          podUID (ContainerName ci2) n = Some bl2
      \<and> map (idSize (fst (assemblePodEntries (fst (assemblePodEntries st podUID ci1)) podUID ci2))) bl2
          = map (idSize (fst (assemblePodEntries (fst (assemblePodEntries st podUID ci1)) podUID ci2))) bl1
      \<and> nextUUID (fst (assemblePodEntries (fst (assemblePodEntries st podUID ci1)) podUID ci2))
          = nextUUID (fst (assemblePodEntries st podUID ci1))"
proof -
  have val0: "\<forall>(k, bl) \<in> set ([] :: (int \<times> nat list) list). \<forall>x \<in> set bl. x < length (blocks st)"
    by simp
  \<comment> \<open>the first container\<close>
  from fold_assemblePodNuma_first [OF assms(1,2) val0, of ci1 "TopologyAwareAssignments ci1"]
  obtain res1 stA where
    fA: "fold (assemblePodNuma podUID ci1) (TopologyAwareAssignments ci1) ([], st) = (res1, stA)"
    and wfA: "wellFormed stA"
    and eA: "calculationEntriesMap stA = calculationEntriesMap st"
    and valA: "\<forall>(k, bl) \<in> set res1. \<forall>x \<in> set bl. x < length (blocks stA)"
    and kA: "\<forall>k \<in> fst ` set (TopologyAwareAssignments ci1). map_of res1 k \<noteq> None"
    by (elim exE conjE) (rule that)
  from assemblePodEntries_first [OF assms(2,3) fA wfA eA valA]
  obtain st1 where
    a1: "assemblePodEntries st podUID ci1 = (st1, None)"
    and wf1: "wellFormed st1" and b1: "blocks st1 = blocks stA"
    and g1: "\<forall>p' c' n'. getNumaCalculationResult (calculationEntriesMap st1) p' c' n' =
            (if p' = podUID
             then (if c' = ContainerName ci1 then map_of res1 n' else None)
             else getNumaCalculationResult (calculationEntriesMap st) p' c' n')"
    by (elim exE conjE) (rule that)
  let ?info1 = "\<lparr>calc_OwnerPoolName = publishedOwnerPoolName ci1, CalculationResultsByNumas = res1\<rparr>"
  have p1: "map_of (calculationEntriesMap st1) podUID = Some [(ContainerName ci1, ?info1)]"
    using assemblePodEntries_first_entry [OF assms(2,3) fA eA] by (simp add: a1)
  from kA assms(5) obtain bl1 where bl1: "map_of res1 n = Some bl1" by auto
  have n1: "getNumaCalculationResult (calculationEntriesMap st1) podUID (ContainerName ci1) n = Some bl1"
    using g1 bl1 by simp
  have v1: "\<forall>x \<in> set bl1. x < length (blocks st1)"
    using valA map_of_SomeD [OF bl1] by (auto simp add: b1)
  \<comment> \<open>the second container\<close>
  have val1: "\<forall>(k, bl) \<in> set ([] :: (int \<times> nat list) list). \<forall>x \<in> set bl. x < length (blocks st1)"
    by simp
  from fold_assemblePodNuma_sidecar [OF wf1 p1 val1, of ci2 "TopologyAwareAssignments ci2"]
  obtain res2 stC where
    fC: "fold (assemblePodNuma podUID ci2) (TopologyAwareAssignments ci2) ([], st1) = (res2, stC)"
    and gC: "grows st1 stC"
    and uC: "nextUUID stC = nextUUID st1"
    and kC: "\<forall>k \<in> fst ` set (TopologyAwareAssignments ci2). \<exists>bl. map_of res2 k = Some bl
            \<and> (\<forall>c e sb. find (\<lambda>(containerName, containerEntry).
                          map_of (CalculationResultsByNumas containerEntry) k \<noteq> None)
                     [(ContainerName ci1, ?info1)] = Some (c, e) \<longrightarrow>
              map_of (CalculationResultsByNumas e) k = Some sb \<longrightarrow>
              map (idSize stC) bl = map (idSize st1) sb)"
    by (elim exE conjE) (rule that)
  have fnd: "find (\<lambda>(containerName, containerEntry).
                          map_of (CalculationResultsByNumas containerEntry) n \<noteq> None)
                     [(ContainerName ci1, ?info1)] = Some (ContainerName ci1, ?info1)"
    by (simp add: bl1)
  from kC assms(6) obtain bl2 where bl2: "map_of res2 n = Some bl2"
    and i2: "\<forall>c e sb. find (\<lambda>(containerName, containerEntry).
                          map_of (CalculationResultsByNumas containerEntry) n \<noteq> None)
                     [(ContainerName ci1, ?info1)] = Some (c, e) \<longrightarrow>
              map_of (CalculationResultsByNumas e) n = Some sb \<longrightarrow>
              map (idSize stC) bl2 = map (idSize st1) sb"
    by blast
  from i2 fnd bl1 have ids: "map (idSize stC) bl2 = map (idSize st1) bl1"
    by simp
  have same: "map (idSize stC) bl1 = map (idSize st1) bl1"
    using v1 grows_idSize [OF gC] by simp
  from assemblePodEntries_sidecar [OF assms(4) fC]
  obtain st2 where
    a2: "assemblePodEntries st1 podUID ci2 = (st2, None)"
    and b2: "blocks st2 = blocks stC" and u2: "nextUUID st2 = nextUUID stC"
    and g2: "\<forall>n. getNumaCalculationResult (calculationEntriesMap st2) podUID (ContainerName ci2) n
               = map_of res2 n"
    by (elim exE conjE) (rule that)
  have i: "idSize st2 = idSize stC"
    by (simp add: idSize_def fun_eq_iff b2)
  have f1: "fst (assemblePodEntries st podUID ci1) = st1" by (simp add: a1)
  have f2: "fst (assemblePodEntries st1 podUID ci2) = st2" by (simp add: a2)
  have c2: "getNumaCalculationResult (calculationEntriesMap st2) podUID (ContainerName ci2) n = Some bl2"
    using g2 bl2 by simp
  have c3: "map (idSize st2) bl2 = map (idSize st2) bl1"
    by (simp only: i ids same)
  have c4: "nextUUID st2 = nextUUID st1" by (simp add: u2 uC)
  from n1 c2 c3 c4 show ?thesis
    unfolding f1 f2 by blast
qed

theorem sidecar_reuses_blocks_witness:
  "wellFormed pooled
   \<and> getNumaCalculationResult (calculationEntriesMap afterFirst) ''pod-a'' ''main'' 0 = Some [1]
   \<and> getNumaCalculationResult (calculationEntriesMap afterSidecar) ''pod-a'' ''sidecar'' 0 = Some [2]
   \<and> idSize afterSidecar 2 = idSize afterSidecar 1
   \<and> nextUUID afterSidecar = nextUUID afterFirst"
proof -
  have h1: "wellFormed pooled" by code_simp
  have h2: "map_of (calculationEntriesMap pooled) ''pod-a'' = None" by code_simp
  have h3: "IsDedicatedNumaBinding (dedicatedContainer ''pod-a'' ''main'')"
    by (simp add: IsDedicatedNumaBinding_def dedicatedContainer_def
        PodAnnotationQoSLevelDedicatedCores_def)
  have h4: "IsDedicatedNumaBinding (dedicatedContainer ''pod-a'' ''sidecar'')"
    by (simp add: IsDedicatedNumaBinding_def dedicatedContainer_def
        PodAnnotationQoSLevelDedicatedCores_def)
  have h5: "0 \<in> fst ` set (TopologyAwareAssignments (dedicatedContainer ''pod-a'' ''main''))"
    by (simp add: dedicatedContainer_def)
  have h6: "0 \<in> fst ` set (TopologyAwareAssignments (dedicatedContainer ''pod-a'' ''sidecar''))"
    by (simp add: dedicatedContainer_def)
  have e1: "getNumaCalculationResult (calculationEntriesMap afterFirst) ''pod-a'' ''main'' 0 = Some [1]"
    by code_simp
  have e2: "getNumaCalculationResult (calculationEntriesMap afterSidecar) ''pod-a'' ''sidecar'' 0
              = Some [2]"
    by code_simp
  have c: "ContainerName (dedicatedContainer ''pod-a'' ''main'') = ''main''"
    "ContainerName (dedicatedContainer ''pod-a'' ''sidecar'') = ''sidecar''"
    by (simp_all add: dedicatedContainer_def)
  from sidecar_reuses_blocks [OF h1 h2 h3 h4 h5 h6]
  have "\<exists>bl1 bl2.
      getNumaCalculationResult (calculationEntriesMap afterFirst) ''pod-a'' ''main'' 0 = Some bl1
      \<and> getNumaCalculationResult (calculationEntriesMap afterSidecar) ''pod-a'' ''sidecar'' 0 = Some bl2
      \<and> map (idSize afterSidecar) bl2 = map (idSize afterSidecar) bl1
      \<and> nextUUID afterSidecar = nextUUID afterFirst"
    by (simp add: afterSidecar_def afterFirst_def c)
  with e1 e2 have "idSize afterSidecar 2 = idSize afterSidecar 1
      \<and> nextUUID afterSidecar = nextUUID afterFirst"
    by auto
  with h1 e1 e2 show ?thesis by simp
qed

subsection \<open>Assembling the pools\<close>

lemma poolResult_New: "poolResult (NewPoolCalculationEntries p) n = None"
  by (simp add: poolResult_def NewPoolCalculationEntries_def)

lemma sentinel_New: "map_of (NewPoolCalculationEntries p) FakedContainerName \<noteq> None"
  by (simp add: NewPoolCalculationEntries_def)

lemma sentinel_set:
  "map_of (setNumaCalculationResult pe k r) FakedContainerName \<noteq> None
     \<longleftrightarrow> map_of pe FakedContainerName \<noteq> None"
  by (simp add: setNumaCalculationResult_def AList.update_conv' split: option.split)

lemma poolResult_set:
  "map_of pe FakedContainerName \<noteq> None \<Longrightarrow>
   poolResult (setNumaCalculationResult pe k r) n = (if n = k then Some r else poolResult pe n)"
  by (auto simp add: poolResult_def setNumaCalculationResult_def AList.update_conv')

lemma getNumaCalculationResult_poolResult:
  "getNumaCalculationResult (AList.update p pe m) p' c n =
     (if p' = p then (if c = FakedContainerName then poolResult pe n
                      else (case map_of pe c of None \<Rightarrow> None
                            | Some i \<Rightarrow> map_of (CalculationResultsByNumas i) n))
      else getNumaCalculationResult m p' c n)"
  by (simp add: getNumaCalculationResult_update_entry poolResult_def)

text \<open>The blocks of a pool entry under construction: those of its sentinel row only.\<close>

lemma setNuma_blocks:
  assumes "(c, info) \<in> set (setNumaCalculationResult pe k r)"
    and "(n, bl) \<in> set (CalculationResultsByNumas info)"
  shows "bl = r \<or> (\<exists>info'. (c, info') \<in> set pe \<and> (n, bl) \<in> set (CalculationResultsByNumas info'))"
proof (cases "map_of pe FakedContainerName")
  case None
  with assms show ?thesis by (auto simp add: setNumaCalculationResult_def)
next
  case (Some i)
  let ?i' = "i\<lparr>CalculationResultsByNumas := AList.update k r (CalculationResultsByNumas i)\<rparr>"
  from assms(1) Some have "(c, info) = (FakedContainerName, ?i') \<or> (c, info) \<in> set pe"
    using set_update_subset [of FakedContainerName ?i' pe]
    by (auto simp add: setNumaCalculationResult_def)
  then show ?thesis
  proof
    assume "(c, info) \<in> set pe"
    with assms(2) show ?thesis by blast
  next
    assume ci: "(c, info) = (FakedContainerName, ?i')"
    with assms(2) have "(n, bl) = (k, r) \<or> (n, bl) \<in> set (CalculationResultsByNumas i)"
      using set_update_subset [of k r "CalculationResultsByNumas i"] by auto
    then show ?thesis
    proof
      assume "(n, bl) = (k, r)" then show ?thesis by simp
    next
      assume "(n, bl) \<in> set (CalculationResultsByNumas i)"
      moreover have "(FakedContainerName, i) \<in> set pe" using Some by (rule map_of_SomeD)
      ultimately show ?thesis using ci by auto
    qed
  qed
qed

lemma registered_entry:
  "registered st \<Longrightarrow> (p, entries) \<in> set (calculationEntriesMap st) \<Longrightarrow> (c, info) \<in> set entries \<Longrightarrow>
   (n, bl) \<in> set (CalculationResultsByNumas info) \<Longrightarrow> x \<in> set bl \<Longrightarrow>
   map_of (bs st) (BlockId (blocks st ! x)) = Some x"
  unfolding registered_def by fastforce

lemma registeredI:
  assumes "\<And>p entries c info n bl x.
           (p, entries) \<in> set (calculationEntriesMap st) \<Longrightarrow> (c, info) \<in> set entries \<Longrightarrow>
           (n, bl) \<in> set (CalculationResultsByNumas info) \<Longrightarrow> x \<in> set bl \<Longrightarrow>
           map_of (bs st) (BlockId (blocks st ! x)) = Some x"
  shows "registered st"
  unfolding registered_def using assms by fastforce

lemma registered_result:
  "registered st \<Longrightarrow> getNumaCalculationResult (calculationEntriesMap st) p c n = Some bl \<Longrightarrow>
   x \<in> set bl \<Longrightarrow> map_of (bs st) (BlockId (blocks st ! x)) = Some x"
proof -
  assume r: "registered st" and x: "x \<in> set bl"
    and g: "getNumaCalculationResult (calculationEntriesMap st) p c n = Some bl"
  from g obtain entries info where "map_of (calculationEntriesMap st) p = Some entries"
    and "map_of entries c = Some info" and "map_of (CalculationResultsByNumas info) n = Some bl"
    by (auto simp add: getNumaCalculationResult_def split: option.splits)
  then have "(p, entries) \<in> set (calculationEntriesMap st)" "(c, info) \<in> set entries"
    "(n, bl) \<in> set (CalculationResultsByNumas info)"
    by (auto dest: map_of_SomeD)
  from registered_entry [OF r this x] show ?thesis .
qed

lemma registered_NewBlockSet: "registered NewBlockSet"
  by (simp add: registered_def NewBlockSet_def)

lemma soundEntry_New: "soundEntry (NewPoolCalculationEntries p) st"
  by (simp add: soundEntry_def NewPoolCalculationEntries_def)

lemma soundEntry_block:
  "soundEntry pe st \<Longrightarrow> (c, info) \<in> set pe \<Longrightarrow> (n, bl) \<in> set (CalculationResultsByNumas info) \<Longrightarrow>
   x \<in> set bl \<Longrightarrow> inRegistry st x"
  unfolding soundEntry_def by blast

lemma soundEntry_set:
  assumes "soundEntry pe st" and "\<forall>x \<in> set r. inRegistry st x"
  shows "soundEntry (setNumaCalculationResult pe k r) st"
proof -
  have s: "map_of (setNumaCalculationResult pe k r) FakedContainerName \<noteq> None"
    using assms(1) sentinel_set [of pe k r] unfolding soundEntry_def by blast
  have "inRegistry st x"
    if a: "(c, info) \<in> set (setNumaCalculationResult pe k r)"
    "(n, bl) \<in> set (CalculationResultsByNumas info)" "x \<in> set bl" for c info n bl x
    using setNuma_blocks [OF a(1,2)]
  proof
    assume "bl = r"
    with assms(2) a(3) show ?thesis by simp
  next
    assume "\<exists>info'. (c, info') \<in> set pe \<and> (n, bl) \<in> set (CalculationResultsByNumas info')"
    with assms(1) a(3) show ?thesis unfolding soundEntry_def by blast
  qed
  with s show ?thesis unfolding soundEntry_def by blast
qed

subsection \<open>Steps that extend the store\<close>

lemma extends_refl: "extends L st st"
  by (simp add: extends_def grows_refl)

lemma extends_grows: "extends L st st' \<Longrightarrow> grows st st'"
  by (simp add: extends_def)

lemma extends_entries: "extends L st st' \<Longrightarrow> calculationEntriesMap st' = calculationEntriesMap st"
  by (simp add: extends_def)

lemma extends_frame:
  "extends L st st' \<Longrightarrow> y < length (blocks st) \<Longrightarrow> L \<le> y \<Longrightarrow> blocks st' ! y = blocks st ! y"
  by (simp add: extends_def)

lemma extends_registry:
  "extends L st st' \<Longrightarrow> x < length (blocks st) \<Longrightarrow>
   map_of (bs st') (BlockId (blocks st ! x)) = map_of (bs st) (BlockId (blocks st ! x))"
  by (simp add: extends_def)

lemma extends_length: "extends L st st' \<Longrightarrow> length (blocks st) \<le> length (blocks st')"
  by (simp add: extends_def grows_def)

lemma extends_trans:
  assumes a: "extends L st1 st2" and b: "extends L st2 st3"
  shows "extends L st1 st3"
proof -
  have g: "grows st1 st3"
    using extends_grows [OF a] extends_grows [OF b] by (rule grows_trans)
  have e: "calculationEntriesMap st3 = calculationEntriesMap st1"
    using extends_entries [OF a] extends_entries [OF b] by simp
  have f: "blocks st3 ! y = blocks st1 ! y" if y: "y < length (blocks st1)" "L \<le> y" for y
  proof -
    from y extends_length [OF a] have "y < length (blocks st2)" by simp
    from extends_frame [OF b this y(2)] extends_frame [OF a y] show ?thesis by simp
  qed
  have r: "map_of (bs st3) (BlockId (blocks st1 ! x)) = map_of (bs st1) (BlockId (blocks st1 ! x))"
    if x: "x < length (blocks st1)" for x
  proof -
    from x extends_length [OF a] have x2: "x < length (blocks st2)" by simp
    have i: "BlockId (blocks st2 ! x) = BlockId (blocks st1 ! x)"
      using grows_BlockId [OF extends_grows [OF a] x] .
    from extends_registry [OF b x2] extends_registry [OF a x] i show ?thesis by simp
  qed
  from g e f r show ?thesis unfolding extends_def by blast
qed

lemma inRegistry_extends:
  assumes "extends L st st'" and "inRegistry st x"
  shows "inRegistry st' x"
proof -
  from assms(2) have x: "x < length (blocks st)"
    and m: "map_of (bs st) (BlockId (blocks st ! x)) = Some x"
    by (simp_all add: inRegistry_def)
  from x extends_length [OF assms(1)] have "x < length (blocks st')" by simp
  moreover have "BlockId (blocks st' ! x) = BlockId (blocks st ! x)"
    using grows_BlockId [OF extends_grows [OF assms(1)] x] .
  ultimately show ?thesis
    using extends_registry [OF assms(1) x] m by (simp add: inRegistry_def)
qed

lemma soundEntry_extends:
  "extends L st st' \<Longrightarrow> soundEntry pe st \<Longrightarrow> soundEntry pe st'"
  unfolding soundEntry_def using inRegistry_extends by blast

lemma registered_extends:
  assumes "wellFormed st" and "registered st" and "extends L st st'"
  shows "registered st'"
proof (rule registeredI)
  fix p entries c info n bl x
  assume a: "(p, entries) \<in> set (calculationEntriesMap st')" "(c, info) \<in> set entries"
    "(n, bl) \<in> set (CalculationResultsByNumas info)" "x \<in> set bl"
  then have a': "(p, entries) \<in> set (calculationEntriesMap st)"
    by (simp add: extends_entries [OF assms(3)])
  from wellFormed_entry [OF assms(1) a' a(2,3,4)] have x: "x < length (blocks st)" .
  from registered_entry [OF assms(2) a' a(2,3,4)] x
  have "inRegistry st x" by (simp add: inRegistry_def)
  from inRegistry_extends [OF assms(3) this]
  show "map_of (bs st') (BlockId (blocks st' ! x)) = Some x" by (simp add: inRegistry_def)
qed

text \<open>Storing a sound entry in the response.\<close>

lemma store_entry:
  assumes "wellFormed st" and "registered st" and "soundEntry pe st"
  shows "wellFormed (st\<lparr>calculationEntriesMap := AList.update p pe (calculationEntriesMap st)\<rparr>)"
    and "registered (st\<lparr>calculationEntriesMap := AList.update p pe (calculationEntriesMap st)\<rparr>)"
proof -
  let ?st' = "st\<lparr>calculationEntriesMap := AList.update p pe (calculationEntriesMap st)\<rparr>"
  have cases: "\<And>q es. (q, es) \<in> set (calculationEntriesMap ?st') \<Longrightarrow>
      (q, es) = (p, pe) \<or> (q, es) \<in> set (calculationEntriesMap st)"
    using set_update_subset [of p pe "calculationEntriesMap st"] by auto
  have reg: "inRegistry st x"
    if a: "(q, es) \<in> set (calculationEntriesMap ?st')" "(c, info) \<in> set es"
      "(n, bl) \<in> set (CalculationResultsByNumas info)" "x \<in> set bl" for q es c info n bl x
    using cases [OF a(1)]
  proof
    assume "(q, es) = (p, pe)"
    with assms(3) a(2,3,4) show ?thesis unfolding soundEntry_def by blast
  next
    assume m: "(q, es) \<in> set (calculationEntriesMap st)"
    from wellFormed_entry [OF assms(1) m a(2,3,4)] registered_entry [OF assms(2) m a(2,3,4)]
    show ?thesis by (simp add: inRegistry_def)
  qed
  show "wellFormed ?st'"
  proof (rule wellFormedI)
    fix x assume "x < length (blocks ?st')"
    then have "x < length (blocks st)" by simp
    from wellFormed_id [OF assms(1) this]
    show "\<exists>k<nextUUID ?st'. BlockId (blocks ?st' ! x) = NewUUID k" by simp
  next
    fix i x assume "(i, x) \<in> set (bs ?st')"
    then have "(i, x) \<in> set (bs st)" by simp
    from wellFormed_bs [OF assms(1) this]
    show "x < length (blocks ?st') \<and> BlockId (blocks ?st' ! x) = i" by simp
  next
    fix q es c info n bl x
    assume a: "(q, es) \<in> set (calculationEntriesMap ?st')" "(c, info) \<in> set es"
      "(n, bl) \<in> set (CalculationResultsByNumas info)" "x \<in> set bl"
    from reg [OF a] show "x < length (blocks ?st')" by (simp add: inRegistry_def)
  qed
  show "registered ?st'"
  proof (rule registeredI)
    fix q es c info n bl x
    assume a: "(q, es) \<in> set (calculationEntriesMap ?st')" "(c, info) \<in> set es"
      "(n, bl) \<in> set (CalculationResultsByNumas info)" "x \<in> set bl"
    from reg [OF a] show "map_of (bs ?st') (BlockId (blocks ?st' ! x)) = Some x"
      by (simp add: inRegistry_def)
  qed
qed

subsection \<open>One block of a pool\<close>

text \<open>Appending a block with a fresh identifier and registering it extends the store.\<close>

lemma extends_append:
  assumes "wellFormed st"
    and "blocks st' = blocks st @ more_blocks"
    and "nextUUID st \<le> nextUUID st'"
    and "calculationEntriesMap st' = calculationEntriesMap st"
    and "bs st' = bs st \<or> bs st' = AList.update (NewUUID (nextUUID st)) a (bs st)"
  shows "extends L st st'"
proof -
  have g: "grows st st'"
    using assms(2,3) by (simp add: grows_def nth_append)
  have f: "\<forall>y < length (blocks st). L \<le> y \<longrightarrow> blocks st' ! y = blocks st ! y"
    using assms(2) by (simp add: nth_append)
  have r: "map_of (bs st') (BlockId (blocks st ! x)) = map_of (bs st) (BlockId (blocks st ! x))"
    if x: "x < length (blocks st)" for x
    using assms(5) wellFormed_id_fresh [OF assms(1) x] by (auto simp add: AList.update_conv')
  from g f r assms(4) show ?thesis unfolding extends_def by blast
qed

lemma assemblePoolNuma_step:
  assumes "wellFormed st" and "assemblePoolNuma p (k, sz) (pe, st) = (pe', st')"
  shows "pe' = setNumaCalculationResult pe k [length (blocks st)]"
    and "wellFormed st'"
    and "extends L st st'"
    and "blocks st' = blocks st @ [\<lparr>Result = word_of_int sz, OverlapTargets = [],
                                    BlockId = NewUUID (nextUUID st)\<rparr>]"
    and "inRegistry st' (length (blocks st))"
proof -
  obtain a st1 where nb: "NewBlock (word_of_int sz) '''' st = (a, st1)"
    by (cases "NewBlock (word_of_int sz) '''' st") simp
  define st2 where "st2 = join (NewInnerBlock a k p None) (BlockId (blocks st1 ! a)) st1"
  note s = standalone_step [OF assms(1) nb st2_def]
  from assms(2) nb have pe': "pe' = setNumaCalculationResult pe k [a]" and st': "st' = st2"
    by (simp_all add: assemblePoolNuma_def Let_def st2_def)
  from pe' s(1) show "pe' = setNumaCalculationResult pe k [length (blocks st)]" by simp
  from s(2) st' show "wellFormed st'" by simp
  from s(4) st' show b: "blocks st' = blocks st @ [\<lparr>Result = word_of_int sz, OverlapTargets = [],
                                    BlockId = NewUUID (nextUUID st)\<rparr>]" by simp
  have "bs st' = bs st \<or> bs st' = AList.update (NewUUID (nextUUID st)) a (bs st)"
    using s(6) st' by simp
  from extends_append [OF assms(1) b _ _ this] s(3,5) st'
  show "extends L st st'" by simp
  show "inRegistry st' (length (blocks st))"
    using s(1,6) b st' by (simp add: inRegistry_def AList.update_conv')
qed

lemma fold_assemblePoolNuma:
  assumes "wellFormed st" and "soundEntry pe st"
    and "fold (assemblePoolNuma p) es (pe, st) = (pe', st')"
  shows "wellFormed st' \<and> extends L st st' \<and> soundEntry pe' st'"
  using assms
proof (induction es arbitrary: pe st)
  case Nil
  then show ?case by (simp add: extends_refl)
next
  case (Cons e es)
  obtain k sz where e: "e = (k, sz)" by (cases e)
  obtain pe1 st1 where f: "assemblePoolNuma p (k, sz) (pe, st) = (pe1, st1)"
    by (cases "assemblePoolNuma p (k, sz) (pe, st)")
  note s = assemblePoolNuma_step [OF Cons.prems(1) f]
  note ex = s(3) [where L = L]
  have "soundEntry pe st1" using ex Cons.prems(2) by (rule soundEntry_extends)
  then have se: "soundEntry pe1 st1"
    unfolding s(1) using s(5) by (intro soundEntry_set) simp_all
  from Cons.prems(3) have "fold (assemblePoolNuma p) es (pe1, st1) = (pe', st')"
    by (simp add: e f)
  from Cons.IH [OF s(2) se this] extends_trans [OF ex] show ?case by blast
qed


subsection \<open>The main loop over the pools\<close>

lemma assemblePool_reclaim:
  "AllowSharedCoresOverlapReclaimedCores advisorResp \<Longrightarrow>
   assemblePool advisorResp (PoolNameReclaim, entries) st = st"
  by (simp add: assemblePool_def)

lemma assemblePool_step:
  assumes "wellFormed st" and "registered st"
  shows "wellFormed (assemblePool advisorResp e st) \<and> registered (assemblePool advisorResp e st)"
proof -
  obtain p es where e: "e = (p, es)" by (cases e)
  show ?thesis
  proof (cases "p = PoolNameReclaim \<and> AllowSharedCoresOverlapReclaimedCores advisorResp")
    case True
    with assms e show ?thesis by (simp add: assemblePool_def)
  next
    case False
    obtain pe' st' where f: "fold (assemblePoolNuma p) es (NewPoolCalculationEntries p, st) = (pe', st')"
      by (cases "fold (assemblePoolNuma p) es (NewPoolCalculationEntries p, st)")
    from fold_assemblePoolNuma [OF assms(1) soundEntry_New f, where L = 0]
    have wf: "wellFormed st'" and ex: "extends 0 st st'" and se: "soundEntry pe' st'" by simp_all
    have reg: "registered st'" using assms(1,2) ex by (rule registered_extends)
    have r: "assemblePool advisorResp e st
             = st'\<lparr>calculationEntriesMap := AList.update p pe' (calculationEntriesMap st')\<rparr>"
      using False by (auto simp add: assemblePool_def e f)
    from store_entry [OF wf reg se, of p] show ?thesis by (simp add: r)
  qed
qed

lemma fold_assemblePool:
  assumes "wellFormed st" and "registered st"
  shows "wellFormed (fold (assemblePool advisorResp) l st)
         \<and> registered (fold (assemblePool advisorResp) l st)"
  using assms
proof (induction l arbitrary: st)
  case Nil
  then show ?case by simp
next
  case (Cons e l)
  from assemblePool_step [OF Cons.prems, of advisorResp e]
    Cons.IH [of "assemblePool advisorResp e st"]
  show ?case by simp
qed

subsection \<open>One block of the reclaimed pool over a shared pool\<close>

lemma join_link:
  assumes "ib_Block ib = a" and "s \<noteq> a"
    and "BlockId (blocks st ! s) \<noteq> ''''"
    and "BlockId (blocks st ! s) \<noteq> BlockId (blocks st ! a)"
    and "map_of (bs st) (BlockId (blocks st ! s)) = Some s"
  shows "blocks (join ib (BlockId (blocks st ! s)) st)
         = addOverlapTarget s (BlockId (blocks st ! a))
             (addOverlapTarget a (BlockId (blocks st ! s)) (blocks st))"
  using assms by (simp add: join_def Let_def AList.update_conv')

lemma overlappable_block:
  assumes "overlappable st n sp"
  obtains s where "getNumaCalculationResult (calculationEntriesMap st) sp FakedContainerName n = Some [s]"
proof -
  from assms obtain bl
    where g: "getNumaCalculationResult (calculationEntriesMap st) sp FakedContainerName n = Some bl"
      and l: "length bl = 1"
    by (auto simp add: overlappable_def split: option.splits)
  from l obtain s where "bl = [s]" by (cases bl) auto
  with g that show thesis by simp
qed

lemma assembleOverlap_skip:
  assumes "wellFormed st" and "\<not> overlappable st k sp"
    and "assembleOverlap k (sp, sz) (ncr, pe, st) = (ncr', pe', st')"
  shows "ncr' = ncr" and "pe' = setNumaCalculationResult pe k ncr"
    and "wellFormed st'" and "extends L st st'"
    and "length (blocks st') = Suc (length (blocks st))"
proof -
  let ?st1 = "snd (NewBlock (word_of_int sz) '''' st)"
  have c: "calculationEntriesMap ?st1 = calculationEntriesMap st" by (simp add: NewBlock_fresh)
  from assms(2,3) have r: "ncr' = ncr \<and> pe' = setNumaCalculationResult pe k ncr \<and> st' = ?st1"
    by (auto simp add: assembleOverlap_def NewBlock_fresh Let_def overlappable_def
        split: option.splits if_splits)
  then show "ncr' = ncr" and "pe' = setNumaCalculationResult pe k ncr" by simp_all
  from r wellFormed_NewBlock_fresh [OF assms(1)] show "wellFormed st'" by simp
  from r show "length (blocks st') = Suc (length (blocks st))" by (simp add: NewBlock_fresh)
  have "extends L st ?st1"
    by (rule extends_append [OF assms(1), where a = 0]) (simp_all add: NewBlock_fresh)
  with r show "extends L st st'" by simp
qed

lemma assembleOverlap_join:
  assumes "wellFormed st" and "registered st"
    and "getNumaCalculationResult (calculationEntriesMap st) sp FakedContainerName k = Some [s]"
    and "s < L"
    and "assembleOverlap k (sp, sz) (ncr, pe, st) = (ncr', pe', st')"
  shows "ncr' = ncr @ [length (blocks st)]"
    and "pe' = setNumaCalculationResult pe k (ncr @ [length (blocks st)])"
    and "wellFormed st'" and "extends L st st'"
    and "length (blocks st') = Suc (length (blocks st))"
    and "inRegistry st' (length (blocks st))"
    and "Result (blocks st' ! length (blocks st)) = word_of_int sz"
    and "linked st' (length (blocks st)) s"
proof -
  define a where "a = length (blocks st)"
  define new where "new = \<lparr>Result = word_of_int sz :: 64 word, OverlapTargets = [],
                            BlockId = NewUUID (nextUUID st)\<rparr>"
  define st1 where "st1 = st\<lparr>nextUUID := Suc (nextUUID st), blocks := blocks st @ [new]\<rparr>"
  define ib where "ib = NewInnerBlock a k PoolNameReclaim None"
  have nb: "NewBlock (word_of_int sz) '''' st = (a, st1)"
    by (simp add: NewBlock_fresh a_def st1_def new_def)
  have s: "s < length (blocks st)"
    using wellFormed_result [OF assms(1,3)] by simp
  have sa: "s \<noteq> a" using s by (simp add: a_def)
  have ids: "BlockId (blocks st ! s) \<noteq> NewUUID (nextUUID st)"
    using assms(1) s by (rule wellFormed_id_fresh)
  have ne: "BlockId (blocks st ! s) \<noteq> ''''"
    using assms(1) s by (rule wellFormed_id_nonempty)
  have reg: "map_of (bs st) (BlockId (blocks st ! s)) = Some s"
    using registered_result [OF assms(2,3)] by simp
  have b1s: "blocks st1 ! s = blocks st ! s" using s by (simp add: st1_def nth_append)
  have b1a: "blocks st1 ! a = new" by (simp add: st1_def a_def)
  have bs1: "bs st1 = bs st" by (simp add: st1_def)
  have iba: "ib_Block ib = a" by (simp add: ib_def NewInnerBlock_def)
  from assms(3,5) have r: "ncr' = ncr @ [a] \<and> pe' = setNumaCalculationResult pe k (ncr @ [a])
      \<and> st' = join ib (BlockId (blocks st1 ! s)) st1"
    by (simp add: assembleOverlap_def nb ib_def Let_def) (auto simp add: st1_def)
  then show "ncr' = ncr @ [length (blocks st)]"
    and "pe' = setNumaCalculationResult pe k (ncr @ [length (blocks st)])"
    by (simp_all add: a_def)
  from r have st': "st' = join ib (BlockId (blocks st1 ! s)) st1" by simp
  have wf1: "wellFormed st1"
    using wellFormed_NewBlock_fresh [OF assms(1), of "word_of_int sz"] by (simp add: nb)
  have "ib_Block ib < length (blocks st1)" by (simp add: iba st1_def a_def)
  from wellFormed_join [OF wf1 this] show "wellFormed st'" by (simp add: st')
  show len: "length (blocks st') = Suc (length (blocks st))"
    by (simp add: st' join_length st1_def)
  have bl: "blocks st' = addOverlapTarget s (BlockId (blocks st1 ! a))
             (addOverlapTarget a (BlockId (blocks st1 ! s)) (blocks st1))"
    unfolding st'
    by (rule join_link [OF iba sa]) (simp_all add: b1s b1a new_def ne ids reg bs1)
  have bs': "bs st' = AList.update (NewUUID (nextUUID st)) a (bs st)"
    by (simp add: st' join_bs iba b1a new_def bs1)
  have la: "a < length (blocks st1)" and ls: "s < length (blocks st1)"
    using s by (simp_all add: st1_def a_def)
  have ba: "blocks st' ! a = new\<lparr>OverlapTargets := [BlockId (blocks st ! s)]\<rparr>"
    using la ls sa by (simp add: bl addOverlapTarget_nth addOverlapTarget_length b1a b1s new_def)
  have bsx: "blocks st' ! s = (blocks st ! s)\<lparr>OverlapTargets :=
      List.insert (NewUUID (nextUUID st)) (OverlapTargets (blocks st ! s))\<rparr>"
    using la ls sa by (simp add: bl addOverlapTarget_nth addOverlapTarget_length b1a b1s new_def)
  have other: "blocks st' ! y = blocks st ! y" if "y < length (blocks st)" "y \<noteq> s" for y
    using that la ls
    by (simp add: bl addOverlapTarget_nth addOverlapTarget_length a_def) (simp add: st1_def nth_append)
  show "Result (blocks st' ! length (blocks st)) = word_of_int sz"
    using ba by (simp add: a_def new_def)
  show "inRegistry st' (length (blocks st))"
    using ba len by (simp add: inRegistry_def a_def [symmetric] bs' AList.update_conv' new_def)
  show "linked st' (length (blocks st)) s"
    using ba bsx len s by (simp add: linked_def a_def [symmetric] new_def)
  show "extends L st st'"
    unfolding extends_def
  proof (intro conjI allI impI)
    have "grows st st1" using grows_NewBlock [of st "word_of_int sz" "''''"] by (simp add: nb)
    moreover have "grows st1 st'" unfolding st' by (rule grows_join)
    ultimately show "grows st st'" by (rule grows_trans)
    show "calculationEntriesMap st' = calculationEntriesMap st"
      by (simp add: st' join_entries st1_def)
  next
    fix y assume "y < length (blocks st)" "L \<le> y"
    with assms(4) other show "blocks st' ! y = blocks st ! y" by simp
  next
    fix x assume "x < length (blocks st)"
    from wellFormed_id_fresh [OF assms(1) this]
    show "map_of (bs st') (BlockId (blocks st ! x)) = map_of (bs st) (BlockId (blocks st ! x))"
      by (simp add: bs' AList.update_conv')
  qed
qed

subsection \<open>The blocks of the reclaimed pool at one NUMA index\<close>

lemma linked_extends:
  assumes "extends L st st'" and "L \<le> b" and "linked st b s"
  shows "linked st' b s"
proof -
  note g = extends_grows [OF assms(1)]
  from assms(3) have b: "b < length (blocks st)" and s: "s < length (blocks st)"
    and t: "OverlapTargets (blocks st ! b) = [BlockId (blocks st ! s)]"
    and m: "BlockId (blocks st ! b) \<in> set (OverlapTargets (blocks st ! s))"
    by (simp_all add: linked_def)
  have fb: "blocks st' ! b = blocks st ! b" using assms(1) b assms(2) by (rule extends_frame)
  have ids: "BlockId (blocks st' ! s) = BlockId (blocks st ! s)" using g s by (rule grows_BlockId)
  have "BlockId (blocks st ! b) \<in> set (OverlapTargets (blocks st' ! s))"
    using g s m by (rule grows_targets)
  with fb ids t grows_length [OF g b] grows_length [OF g s] show ?thesis
    by (simp add: linked_def)
qed

lemma overlappable_entries:
  "calculationEntriesMap st' = calculationEntriesMap st \<Longrightarrow>
   overlappable st' k sp = overlappable st k sp"
  by (simp add: overlappable_def)

lemma overlapBlock_entries:
  "calculationEntriesMap mid' = calculationEntriesMap mid \<Longrightarrow>
   overlapBlock mid' st k b e = overlapBlock mid st k b e"
  by (simp add: overlapBlock_def)

lemma overlapBlock_blocks:
  "blocks st' = blocks st \<Longrightarrow> overlapBlock mid st' k b e = overlapBlock mid st k b e"
  by (cases e) (auto simp add: overlapBlock_def linked_def split: option.splits)

lemma overlapBlock_extends:
  assumes "extends L st st'" and "L \<le> b" and "overlapBlock mid st k b e"
  shows "overlapBlock mid st' k b e"
proof -
  obtain sp sz where e: "e = (sp, sz)" by (cases e)
  from assms(3) e obtain bl
    where g: "getNumaCalculationResult (calculationEntriesMap mid) sp FakedContainerName k = Some bl"
      and l: "length bl = 1" and lk: "linked st b (bl ! 0)"
      and r: "Result (blocks st ! b) = word_of_int sz"
    by (auto simp add: overlapBlock_def split: option.splits)
  from lk have b: "b < length (blocks st)" by (simp add: linked_def)
  from grows_Result [OF extends_grows [OF assms(1)] b] r
  have "Result (blocks st' ! b) = word_of_int sz" by simp
  moreover from linked_extends [OF assms(1,2) lk] have "linked st' b (bl ! 0)" .
  ultimately show ?thesis using g l by (simp add: overlapBlock_def e)
qed

lemma fold_assembleOverlap:
  assumes "wellFormed st" and "registered st" and "soundEntry pe st"
    and "\<forall>sp s. getNumaCalculationResult (calculationEntriesMap st) sp FakedContainerName k = Some [s]
           \<longrightarrow> s < L"
    and "L \<le> length (blocks st)"
    and "fold (assembleOverlap k) os ([], pe, st) = (ncr', pe', st')"
  shows "wellFormed st' \<and> extends L st st' \<and> soundEntry pe' st'
         \<and> (\<forall>x \<in> set ncr'. inRegistry st' x)
         \<and> (\<forall>k'. k' \<noteq> k \<longrightarrow> poolResult pe' k' = poolResult pe k')
         \<and> (os \<noteq> [] \<longrightarrow> poolResult pe' k = Some ncr')
         \<and> list_all2 (\<lambda>b e. L \<le> b \<and> overlapBlock st st' k b e) ncr'
             (filter (\<lambda>(sp, sz). overlappable st k sp) os)"
  using assms(6)
proof (induction os arbitrary: ncr' pe' st' rule: rev_induct)
  case Nil
  then show ?case using assms(1,3) by (simp add: extends_refl)
next
  case (snoc e os)
  obtain sp sz where e: "e = (sp, sz)" by (cases e)
  obtain ncr1 pe1 st1 where f1: "fold (assembleOverlap k) os ([], pe, st) = (ncr1, pe1, st1)"
    by (cases "fold (assembleOverlap k) os ([], pe, st)")
  from snoc.IH [OF f1] have wf1: "wellFormed st1" and ex1: "extends L st st1"
    and se1: "soundEntry pe1 st1" and in1: "\<forall>x \<in> set ncr1. inRegistry st1 x"
    and o1: "\<forall>k'. k' \<noteq> k \<longrightarrow> poolResult pe1 k' = poolResult pe k'"
    and l1: "list_all2 (\<lambda>b e. L \<le> b \<and> overlapBlock st st1 k b e) ncr1
               (filter (\<lambda>(sp, sz). overlappable st k sp) os)"
    by simp_all
  have reg1: "registered st1" using assms(1,2) ex1 by (rule registered_extends)
  have c1: "calculationEntriesMap st1 = calculationEntriesMap st" using ex1 by (rule extends_entries)
  have sen1: "map_of pe1 FakedContainerName \<noteq> None" using se1 by (simp add: soundEntry_def)
  have L1: "L \<le> length (blocks st1)" using assms(5) extends_length [OF ex1] by simp
  from snoc.prems have step: "assembleOverlap k (sp, sz) (ncr1, pe1, st1) = (ncr', pe', st')"
    by (simp add: f1 e)
  show ?case
  proof (cases "overlappable st k sp")
    case False
    then have no: "\<not> overlappable st1 k sp" by (simp add: overlappable_entries [OF c1])
    note s = assembleOverlap_skip [OF wf1 no step]
    note ex = s(4) [where L = L]
    have in': "\<forall>x \<in> set ncr'. inRegistry st' x"
      using in1 inRegistry_extends [OF ex] by (simp add: s(1))
    have "soundEntry pe1 st'" using ex se1 by (rule soundEntry_extends)
    then have se': "soundEntry pe' st'" unfolding s(2) using in' s(1) by (intro soundEntry_set) auto
    have "list_all2 (\<lambda>b e. L \<le> b \<and> overlapBlock st st' k b e) ncr1
            (filter (\<lambda>(sp, sz). overlappable st k sp) os)"
    proof (rule list_all2_mono [OF l1])
      fix b e assume "L \<le> b \<and> overlapBlock st st1 k b e"
      then show "L \<le> b \<and> overlapBlock st st' k b e"
        using overlapBlock_extends [OF ex] by blast
    qed
    then have l': "list_all2 (\<lambda>b e. L \<le> b \<and> overlapBlock st st' k b e) ncr'
        (filter (\<lambda>(sp, sz). overlappable st k sp) (os @ [e]))"
      using False by (simp add: s(1) e)
    have p: "poolResult pe' k = Some ncr'" and o: "\<forall>k'. k' \<noteq> k \<longrightarrow> poolResult pe' k' = poolResult pe k'"
      using o1 by (simp_all add: s(2) poolResult_set [OF sen1] s(1))
    from s(3) extends_trans [OF ex1 ex] se' in' o p l' show ?thesis by simp
  next
    case True
    then have "overlappable st1 k sp" by (simp add: overlappable_entries [OF c1])
    then obtain s where g: "getNumaCalculationResult (calculationEntriesMap st1) sp FakedContainerName k = Some [s]"
      by (rule overlappable_block)
    with assms(4) have sL: "s < L" by (simp add: c1)
    note j = assembleOverlap_join [OF wf1 reg1 g sL step]
    have in': "\<forall>x \<in> set ncr'. inRegistry st' x"
      using in1 inRegistry_extends [OF j(4)] j(6) by (auto simp add: j(1))
    have "soundEntry pe1 st'" using j(4) se1 by (rule soundEntry_extends)
    then have se': "soundEntry pe' st'"
      unfolding j(2) using in' j(1) by (intro soundEntry_set) auto
    have old: "list_all2 (\<lambda>b e. L \<le> b \<and> overlapBlock st st' k b e) ncr1
                 (filter (\<lambda>(sp, sz). overlappable st k sp) os)"
    proof (rule list_all2_mono [OF l1])
      fix b e assume "L \<le> b \<and> overlapBlock st st1 k b e"
      then show "L \<le> b \<and> overlapBlock st st' k b e"
        using overlapBlock_extends [OF j(4)] by blast
    qed
    have new: "overlapBlock st st' k (length (blocks st1)) (sp, sz)"
      using j(7,8) g by (simp add: overlapBlock_def c1)
    have l': "list_all2 (\<lambda>b e. L \<le> b \<and> overlapBlock st st' k b e) ncr'
        (filter (\<lambda>(sp, sz). overlappable st k sp) (os @ [e]))"
      using True old new L1 by (simp add: j(1) e list_all2_appendI)
    have p: "poolResult pe' k = Some ncr'" and o: "\<forall>k'. k' \<noteq> k \<longrightarrow> poolResult pe' k' = poolResult pe k'"
      using o1 by (simp_all add: j(2) poolResult_set [OF sen1] j(1))
    from j(3) extends_trans [OF ex1 j(4)] se' in' o p l' show ?thesis by simp
  qed
qed

lemma assembleReclaimNuma_standalone:
  assumes "wellFormed st" and "soundEntry pe st"
    and "GetPoolOverlapInfo advisorResp PoolNameReclaim k = []"
    and "assembleReclaimNuma advisorResp (k, sz) (pe, st) = (pe', st')"
  shows "wellFormed st'" and "extends L st st'" and "soundEntry pe' st'"
    and "\<forall>k'. k' \<noteq> k \<longrightarrow> poolResult pe' k' = poolResult pe k'"
    and "poolResult pe' k = Some [length (blocks st)]"
    and "blocks st' = blocks st @ [\<lparr>Result = word_of_int sz, OverlapTargets = [],
                                    BlockId = NewUUID (nextUUID st)\<rparr>]"
proof -
  from assms(3,4) have f: "assemblePoolNuma PoolNameReclaim (k, sz) (pe, st) = (pe', st')"
    by (simp add: assembleReclaimNuma_def)
  note s = assemblePoolNuma_step [OF assms(1) f]
  note ex = s(3) [where L = L]
  have sen: "map_of pe FakedContainerName \<noteq> None" using assms(2) by (simp add: soundEntry_def)
  from s(2) show "wellFormed st'" .
  from ex show "extends L st st'" .
  have "soundEntry pe st'" using ex assms(2) by (rule soundEntry_extends)
  then show "soundEntry pe' st'" unfolding s(1) using s(5) by (intro soundEntry_set) simp_all
  show "\<forall>k'. k' \<noteq> k \<longrightarrow> poolResult pe' k' = poolResult pe k'"
    by (simp add: s(1) poolResult_set [OF sen])
  show "poolResult pe' k = Some [length (blocks st)]"
    by (simp add: s(1) poolResult_set [OF sen])
  from s(4) show "blocks st' = blocks st @ [\<lparr>Result = word_of_int sz, OverlapTargets = [],
                                    BlockId = NewUUID (nextUUID st)\<rparr>]" .
qed

lemma assembleReclaimNuma_overlap:
  assumes "wellFormed st" and "registered st" and "soundEntry pe st"
    and "\<forall>sp s. getNumaCalculationResult (calculationEntriesMap st) sp FakedContainerName k = Some [s]
           \<longrightarrow> s < L"
    and "L \<le> length (blocks st)"
    and "GetPoolOverlapInfo advisorResp PoolNameReclaim k \<noteq> []"
    and "assembleReclaimNuma advisorResp (k, sz) (pe, st) = (pe', st')"
  shows "wellFormed st'" and "extends L st st'" and "soundEntry pe' st'"
    and "\<forall>k'. k' \<noteq> k \<longrightarrow> poolResult pe' k' = poolResult pe k'"
    and "\<exists>ncr. poolResult pe' k = Some ncr
           \<and> list_all2 (\<lambda>b e. L \<le> b \<and> overlapBlock st st' k b e) ncr
               (filter (\<lambda>(sp, sz). overlappable st k sp)
                  (GetPoolOverlapInfo advisorResp PoolNameReclaim k))"
proof -
  let ?os = "GetPoolOverlapInfo advisorResp PoolNameReclaim k"
  obtain ncr pe2 st2 where f: "fold (assembleOverlap k) ?os ([], pe, st) = (ncr, pe2, st2)"
    by (cases "fold (assembleOverlap k) ?os ([], pe, st)")
  from assms(6,7) have r: "pe' = pe2" "st' = st2"
    by (simp_all add: assembleReclaimNuma_def Let_def f)
  note s = fold_assembleOverlap [OF assms(1,2,3,4,5) f]
  from s show "wellFormed st'" and "extends L st st'" and "soundEntry pe' st'"
    and "\<forall>k'. k' \<noteq> k \<longrightarrow> poolResult pe' k' = poolResult pe k'"
    by (simp_all add: r)
  from s assms(6) show "\<exists>ncr. poolResult pe' k = Some ncr
           \<and> list_all2 (\<lambda>b e. L \<le> b \<and> overlapBlock st st' k b e) ncr
               (filter (\<lambda>(sp, sz). overlappable st k sp) ?os)"
    by (simp add: r)
qed

text \<open>What every step of the pass over the reclaimed pool keeps.\<close>

lemma assembleReclaimNuma_step:
  assumes "wellFormed st" and "registered st" and "soundEntry pe st"
    and "\<forall>k sp s. getNumaCalculationResult (calculationEntriesMap st) sp FakedContainerName k = Some [s]
           \<longrightarrow> s < L"
    and "L \<le> length (blocks st)"
    and "assembleReclaimNuma advisorResp (k, sz) (pe, st) = (pe', st')"
  shows "wellFormed st' \<and> extends L st st' \<and> soundEntry pe' st'
         \<and> (\<forall>k'. k' \<noteq> k \<longrightarrow> poolResult pe' k' = poolResult pe k')"
proof (cases "GetPoolOverlapInfo advisorResp PoolNameReclaim k = []")
  case True
  note s = assembleReclaimNuma_standalone [OF assms(1,3) True assms(6)]
  from s(1) s(2) [where L = L] s(3,4) show ?thesis by simp
next
  case False
  from assms(4) have b: "\<forall>sp s. getNumaCalculationResult (calculationEntriesMap st) sp
      FakedContainerName k = Some [s] \<longrightarrow> s < L" by blast
  from assembleReclaimNuma_overlap [OF assms(1,2,3) b assms(5) False assms(6)]
  show ?thesis by simp
qed

lemma fold_assembleReclaimNuma:
  assumes "wellFormed st" and "registered st" and "soundEntry pe st"
    and "\<forall>k sp s. getNumaCalculationResult (calculationEntriesMap st) sp FakedContainerName k = Some [s]
           \<longrightarrow> s < L"
    and "L \<le> length (blocks st)"
    and "fold (assembleReclaimNuma advisorResp) es (pe, st) = (pe', st')"
  shows "wellFormed st' \<and> extends L st st' \<and> soundEntry pe' st'
         \<and> (\<forall>k'. k' \<notin> fst ` set es \<longrightarrow> poolResult pe' k' = poolResult pe k')"
  using assms
proof (induction es arbitrary: pe st)
  case Nil
  then show ?case by (simp add: extends_refl)
next
  case (Cons e es)
  obtain k sz where e: "e = (k, sz)" by (cases e)
  obtain pe1 st1 where f: "assembleReclaimNuma advisorResp (k, sz) (pe, st) = (pe1, st1)"
    by (cases "assembleReclaimNuma advisorResp (k, sz) (pe, st)")
  from assembleReclaimNuma_step [OF Cons.prems(1,2,3,4,5) f]
  have wf1: "wellFormed st1" and ex1: "extends L st st1" and se1: "soundEntry pe1 st1"
    and o1: "\<forall>k'. k' \<noteq> k \<longrightarrow> poolResult pe1 k' = poolResult pe k'"
    by simp_all
  have reg1: "registered st1" using Cons.prems(1,2) ex1 by (rule registered_extends)
  have b1: "\<forall>k sp s. getNumaCalculationResult (calculationEntriesMap st1) sp FakedContainerName k = Some [s]
           \<longrightarrow> s < L"
    using Cons.prems(4) by (simp add: extends_entries [OF ex1])
  have L1: "L \<le> length (blocks st1)" using Cons.prems(5) extends_length [OF ex1] by simp
  from Cons.prems(6) have "fold (assembleReclaimNuma advisorResp) es (pe1, st1) = (pe', st')"
    by (simp add: e f)
  from Cons.IH [OF wf1 reg1 se1 b1 L1 this]
  have "wellFormed st'" and ex: "extends L st1 st'" and "soundEntry pe' st'"
    and o: "\<forall>k'. k' \<notin> fst ` set es \<longrightarrow> poolResult pe' k' = poolResult pe1 k'"
    by simp_all
  moreover have "extends L st st'" using ex1 ex by (rule extends_trans)
  moreover have "\<forall>k'. k' \<notin> fst ` set (e # es) \<longrightarrow> poolResult pe' k' = poolResult pe k'"
    using o o1 by (simp add: e)
  ultimately show ?case by simp
qed

text \<open>
  C6. The pass over the pools, started with the overlap flag set in any well-formed state
  whose response blocks are registered, at a NUMA index \<open>n\<close> of the reclaimed pool (the
  NUMA indices of a Go map being distinct).  The body of the main loop leaves the state as
  it is at the reclaimed pool.  Without overlap sizing at \<open>n\<close>, the reclaimed pool ends
  with one block there, of the reclaim size and without overlap target.  With overlap
  sizing at \<open>n\<close>, its blocks there are, in the order of the sizing, one for each pool of
  the sizing that has exactly one block at \<open>n\<close> when the main loop is over: the block has
  the overlapping size, that one block is its only overlap target, and it is an overlap
  target of that block.  A pool of the sizing with no block or with several blocks at \<open>n\<close>
  has no block in the entry.
\<close>

theorem reclaimed_pool_assembled_apart:
  assumes "wellFormed st" and "registered st"
    and "AllowSharedCoresOverlapReclaimedCores advisorResp"
    and "map_of (PoolEntries advisorResp) PoolNameReclaim = Some reclaimEntries"
    and "distinct (map fst reclaimEntries)"
    and "map_of reclaimEntries n = Some reclaimSize"
  shows "(\<forall>entries s. assemblePool advisorResp (PoolNameReclaim, entries) s = s)
    \<and> (GetPoolOverlapInfo advisorResp PoolNameReclaim n = [] \<longrightarrow>
         (\<exists>b. getNumaCalculationResult
                (calculationEntriesMap (assemblePoolEntries advisorResp st))
                PoolNameReclaim FakedContainerName n = Some [b]
              \<and> b < length (blocks (assemblePoolEntries advisorResp st))
              \<and> Result (blocks (assemblePoolEntries advisorResp st) ! b)
                  = word_of_int reclaimSize
              \<and> OverlapTargets (blocks (assemblePoolEntries advisorResp st) ! b) = []))
    \<and> (GetPoolOverlapInfo advisorResp PoolNameReclaim n \<noteq> [] \<longrightarrow>
         (\<exists>bl. getNumaCalculationResult
                 (calculationEntriesMap (assemblePoolEntries advisorResp st))
                 PoolNameReclaim FakedContainerName n = Some bl
              \<and> list_all2
                  (overlapBlock (fold (assemblePool advisorResp) (PoolEntries advisorResp) st)
                     (assemblePoolEntries advisorResp st) n)
                  bl
                  (filter (\<lambda>(sharedPoolName, reclaimedSize).
                             overlappable
                               (fold (assemblePool advisorResp) (PoolEntries advisorResp) st)
                               n sharedPoolName)
                     (GetPoolOverlapInfo advisorResp PoolNameReclaim n))))"
proof -
  let ?f = "assembleReclaimNuma advisorResp"
  let ?os = "GetPoolOverlapInfo advisorResp PoolNameReclaim n"
  define stM where "stM = fold (assemblePool advisorResp) (PoolEntries advisorResp) st"
  define L where "L = length (blocks stM)"
  from fold_assemblePool [OF assms(1,2), of advisorResp "PoolEntries advisorResp"]
  have wfM: "wellFormed stM" and regM: "registered stM"
    by (simp_all add: stM_def)
  have belowM: "\<forall>k sp s. getNumaCalculationResult (calculationEntriesMap stM) sp
      FakedContainerName k = Some [s] \<longrightarrow> s < L"
    unfolding L_def using wellFormed_result [OF wfM] by fastforce
  have LM: "L \<le> length (blocks stM)" by (simp add: L_def)
  from map_of_split [OF assms(5,6)] obtain pre post
    where split: "reclaimEntries = pre @ (n, reclaimSize) # post"
      and npost: "n \<notin> fst ` set post"
    by blast
  obtain pe1 st1 where f1: "fold ?f pre (NewPoolCalculationEntries PoolNameReclaim, stM) = (pe1, st1)"
    by (cases "fold ?f pre (NewPoolCalculationEntries PoolNameReclaim, stM)")
  obtain pe2 st2 where f2: "?f (n, reclaimSize) (pe1, st1) = (pe2, st2)"
    by (cases "?f (n, reclaimSize) (pe1, st1)")
  obtain pe3 st3 where f3: "fold ?f post (pe2, st2) = (pe3, st3)"
    by (cases "fold ?f post (pe2, st2)")
  have whole: "fold ?f reclaimEntries (NewPoolCalculationEntries PoolNameReclaim, stM) = (pe3, st3)"
    by (simp add: split f1 f2 f3)
  define st' where "st' = st3\<lparr>calculationEntriesMap :=
      AList.update PoolNameReclaim pe3 (calculationEntriesMap st3)\<rparr>"
  have final: "assemblePoolEntries advisorResp st = st'"
    unfolding assemblePoolEntries_def stM_def [symmetric]
    by (simp add: Let_def assms(3,4) whole st'_def)
  \<comment> \<open>the reclaimed NUMA indices before \<open>n\<close>\<close>
  from fold_assembleReclaimNuma [OF wfM regM soundEntry_New belowM LM f1]
  have wf1: "wellFormed st1" and ex1: "extends L stM st1" and se1: "soundEntry pe1 st1"
    by simp_all
  have reg1: "registered st1" using wfM regM ex1 by (rule registered_extends)
  have c1: "calculationEntriesMap st1 = calculationEntriesMap stM"
    using ex1 by (rule extends_entries)
  have below1: "\<forall>k sp s. getNumaCalculationResult (calculationEntriesMap st1) sp
      FakedContainerName k = Some [s] \<longrightarrow> s < L"
    using belowM by (simp add: c1)
  have L1: "L \<le> length (blocks st1)" using LM extends_length [OF ex1] by simp
  \<comment> \<open>the NUMA index \<open>n\<close>\<close>
  from assembleReclaimNuma_step [OF wf1 reg1 se1 below1 L1 f2]
  have wf2: "wellFormed st2" and ex2: "extends L st1 st2" and se2: "soundEntry pe2 st2"
    by simp_all
  have reg2: "registered st2" using wf1 reg1 ex2 by (rule registered_extends)
  have c2: "calculationEntriesMap st2 = calculationEntriesMap st1"
    using ex2 by (rule extends_entries)
  have below2: "\<forall>k sp s. getNumaCalculationResult (calculationEntriesMap st2) sp
      FakedContainerName k = Some [s] \<longrightarrow> s < L"
    using below1 by (simp add: c2)
  have L2: "L \<le> length (blocks st2)" using L1 extends_length [OF ex2] by simp
  \<comment> \<open>the reclaimed NUMA indices after \<open>n\<close>\<close>
  from fold_assembleReclaimNuma [OF wf2 reg2 se2 below2 L2 f3] npost
  have ex3: "extends L st2 st3" and p3: "poolResult pe3 n = poolResult pe2 n"
    by simp_all
  have res: "getNumaCalculationResult (calculationEntriesMap st') PoolNameReclaim
      FakedContainerName n = poolResult pe2 n"
    by (simp add: st'_def getNumaCalculationResult_poolResult p3)
  have blocks': "blocks st' = blocks st3" by (simp add: st'_def)
  have excluded: "\<forall>entries s. assemblePool advisorResp (PoolNameReclaim, entries) s = s"
    using assms(3) by (simp add: assemblePool_reclaim)
  have standalone: "\<exists>b. getNumaCalculationResult (calculationEntriesMap st') PoolNameReclaim
          FakedContainerName n = Some [b]
        \<and> b < length (blocks st')
        \<and> Result (blocks st' ! b) = word_of_int reclaimSize
        \<and> OverlapTargets (blocks st' ! b) = []"
    if os: "?os = []"
  proof -
    note s = assembleReclaimNuma_standalone [OF wf1 se1 os f2]
    define b where "b = length (blocks st1)"
    have b2: "b < length (blocks st2)" by (simp add: s(6) b_def)
    have Lb: "L \<le> b" using L1 by (simp add: b_def)
    have "blocks st3 ! b = blocks st2 ! b" using ex3 b2 Lb by (rule extends_frame)
    then have "blocks st' ! b = \<lparr>Result = word_of_int reclaimSize, OverlapTargets = [],
        BlockId = NewUUID (nextUUID st1)\<rparr>"
      by (simp add: blocks' s(6) b_def)
    moreover have "b < length (blocks st')"
      using b2 extends_length [OF ex3] by (simp add: blocks')
    moreover have "getNumaCalculationResult (calculationEntriesMap st') PoolNameReclaim
          FakedContainerName n = Some [b]"
      by (simp add: res s(5) b_def)
    ultimately show ?thesis by (intro exI [of _ b]) simp
  qed
  have overlap: "\<exists>bl. getNumaCalculationResult (calculationEntriesMap st') PoolNameReclaim
          FakedContainerName n = Some bl
        \<and> list_all2 (overlapBlock stM st' n) bl
            (filter (\<lambda>(sharedPoolName, reclaimedSize). overlappable stM n sharedPoolName) ?os)"
    if os: "?os \<noteq> []"
  proof -
    from below1 have b: "\<forall>sp s. getNumaCalculationResult (calculationEntriesMap st1) sp
        FakedContainerName n = Some [s] \<longrightarrow> s < L" by blast
    from assembleReclaimNuma_overlap(5) [OF wf1 reg1 se1 b L1 os f2]
    obtain ncr where r: "poolResult pe2 n = Some ncr"
      and l: "list_all2 (\<lambda>b e. L \<le> b \<and> overlapBlock st1 st2 n b e) ncr
                (filter (\<lambda>(sp, sz). overlappable st1 n sp) ?os)"
      by blast
    have flt: "filter (\<lambda>(sp, sz). overlappable st1 n sp) ?os
        = filter (\<lambda>(sharedPoolName, reclaimedSize). overlappable stM n sharedPoolName) ?os"
      by (simp add: overlappable_entries [OF c1])
    have "overlapBlock stM st' n x e" if "L \<le> x \<and> overlapBlock st1 st2 n x e" for x e
    proof -
      from that have "overlapBlock stM st2 n x e" by (simp add: overlapBlock_entries [OF c1])
      with that overlapBlock_extends [OF ex3] have "overlapBlock stM st3 n x e" by blast
      then show ?thesis by (simp add: overlapBlock_blocks [OF blocks'])
    qed
    with l have "list_all2 (overlapBlock stM st' n) ncr
        (filter (\<lambda>(sp, sz). overlappable st1 n sp) ?os)"
      by (rule list_all2_mono)
    with r res flt show ?thesis by (intro exI [of _ ncr]) simp
  qed
  from excluded standalone overlap show ?thesis unfolding final stM_def [symmetric] by blast
qed

theorem reclaimed_pool_assembled_apart_witness:
  "wellFormed severalBlocks \<and> registered severalBlocks
   \<and> AllowSharedCoresOverlapReclaimedCores overlapAdvice
   \<and> GetPoolOverlapInfo overlapAdvice PoolNameReclaim 0 = [(''share'', 1000), (''batch'', 300)]
   \<and> getNumaCalculationResult (calculationEntriesMap overlapMain) ''share'' '''' 0 = Some [2]
   \<and> getNumaCalculationResult (calculationEntriesMap overlapMain) ''batch'' '''' 0 = Some [0, 1]
   \<and> getNumaCalculationResult (calculationEntriesMap overlapPooled) ''reclaim'' '''' 0 = Some [4]
   \<and> overlapBlock overlapMain overlapPooled 0 4 (''share'', 1000)
   \<and> GetPoolOverlapInfo overlapAdvice PoolNameReclaim 1 = []
   \<and> getNumaCalculationResult (calculationEntriesMap overlapPooled) ''reclaim'' '''' 1 = Some [6]
   \<and> Result (blocks overlapPooled ! 6) = 500
   \<and> OverlapTargets (blocks overlapPooled ! 6) = []"
proof -
  have w1: "wellFormed severalBlocks" by code_simp
  have w2: "registered severalBlocks" by code_simp
  have h1: "AllowSharedCoresOverlapReclaimedCores overlapAdvice" by (simp add: overlapAdvice_def)
  have h2: "map_of (PoolEntries overlapAdvice) PoolNameReclaim = Some [(0, 1000), (1, 500)]"
    by (simp add: overlapAdvice_def PoolNameReclaim_def)
  have h3: "distinct (map fst [(0 :: int, 1000 :: int), (1, 500)])" by simp
  have h4: "map_of [(0 :: int, 1000 :: int), (1, 500)] 0 = Some 1000" by simp
  have h5: "map_of [(0 :: int, 1000 :: int), (1, 500)] 1 = Some 500" by simp
  have o0: "GetPoolOverlapInfo overlapAdvice PoolNameReclaim 0 = [(''share'', 1000), (''batch'', 300)]"
    by (simp add: GetPoolOverlapInfo_def overlapAdvice_def PoolNameReclaim_def)
  have o1: "GetPoolOverlapInfo overlapAdvice PoolNameReclaim 1 = []"
    by (simp add: GetPoolOverlapInfo_def overlapAdvice_def PoolNameReclaim_def)
  have e0: "getNumaCalculationResult (calculationEntriesMap overlapPooled) ''reclaim'' '''' 0 = Some [4]"
    by code_simp
  have e1: "getNumaCalculationResult (calculationEntriesMap overlapPooled) ''reclaim'' '''' 1 = Some [6]"
    by code_simp
  have s0: "getNumaCalculationResult (calculationEntriesMap overlapMain) ''share'' '''' 0 = Some [2]"
    by code_simp
  have b0: "getNumaCalculationResult (calculationEntriesMap overlapMain) ''batch'' '''' 0 = Some [0, 1]"
    by code_simp
  have ov: "overlappable overlapMain 0 ''share''" "\<not> overlappable overlapMain 0 ''batch''"
    using s0 b0 by (simp_all add: overlappable_def FakedContainerName_def)
  note t0 = reclaimed_pool_assembled_apart [OF w1 w2 h1 h2 h3 h4]
  note t1 = reclaimed_pool_assembled_apart [OF w1 w2 h1 h2 h3 h5]
  from t0 o0 have "\<exists>bl. getNumaCalculationResult (calculationEntriesMap overlapPooled)
        PoolNameReclaim FakedContainerName 0 = Some bl
      \<and> list_all2 (overlapBlock overlapMain overlapPooled 0) bl
          (filter (\<lambda>(sharedPoolName, reclaimedSize). overlappable overlapMain 0 sharedPoolName)
             [(''share'', 1000), (''batch'', 300)])"
    by (simp add: overlapPooled_def overlapMain_def)
  with e0 ov have c0: "overlapBlock overlapMain overlapPooled 0 4 (''share'', 1000)"
    by (auto simp add: PoolNameReclaim_def FakedContainerName_def)
  from t1 o1 have "\<exists>b. getNumaCalculationResult (calculationEntriesMap overlapPooled)
        PoolNameReclaim FakedContainerName 1 = Some [b]
      \<and> b < length (blocks overlapPooled)
      \<and> Result (blocks overlapPooled ! b) = word_of_int 500
      \<and> OverlapTargets (blocks overlapPooled ! b) = []"
    by (simp add: overlapPooled_def)
  with e1 have c1: "Result (blocks overlapPooled ! 6) = 500"
    "OverlapTargets (blocks overlapPooled ! 6) = []"
    by (auto simp add: PoolNameReclaim_def FakedContainerName_def)
  from w1 w2 h1 o0 s0 b0 e0 c0 o1 e1 c1 show ?thesis by simp
qed

end
